theory Spec2Isabelle
  imports Complex_Main "HOL-Library.AList" "HOL-Library.Multiset"
begin

section \<open>Python values\<close>

text \<open>
  A Python \<open>str\<close> is a sequence of Unicode code points; the topic names of the
  program are Chinese, so a string is modelled as the list of its code points.
  Python's \<open>int\<close> is unbounded and is modelled by \<open>int\<close>.
\<close>

type_synonym pystr = "nat list"

datatype py_error = ZeroDivisionError | OverflowError | KeyError | TypeError

subsection \<open>Binary64 floating point, as far as the scorer uses it\<close>

text \<open>
  The scorer evaluates \<^verbatim>\<open>round((total_viewed / max(total_animation_steps, 1)) * 30)\<close>.
  With \<open>int\<close> operands, \<^verbatim>\<open>/\<close> is true division: the correctly rounded binary64
  quotient, \<^verbatim>\<open>ZeroDivisionError\<close> on a zero divisor and \<^verbatim>\<open>OverflowError\<close> when the
  quotient is too large for a float. The product with \<open>30\<close> is a binary64
  multiplication that may overflow to infinity, and \<^verbatim>\<open>round\<close> of a float returns the
  nearest \<open>int\<close>, ties to even, and raises \<^verbatim>\<open>OverflowError\<close> on an infinity.

  A finite float is represented by the rational number it denotes (the sign of a zero
  is not kept: no operation used here observes it).
\<close>

datatype pyfloat = Finite rat | Infinity bool

function bit_length :: "int \<Rightarrow> int" where
  \<comment> \<open>\<^verbatim>\<open>int.bit_length\<close> of a positive \<open>int\<close>\<close>
  "bit_length n = (if n \<le> 0 then 0 else 1 + bit_length (n div 2))"
  by pat_completeness auto
termination
  by (relation "measure nat") auto

declare bit_length.simps [simp del]

definition floor_log2 :: "rat \<Rightarrow> int" where
  \<comment> \<open>for \<open>q > 0\<close>: the \<open>k\<close> with \<open>2^k \<le> q < 2^(k+1)\<close>\<close>
  "floor_log2 q =
     (let (a, b) = quotient_of q;
          k = bit_length a - bit_length b
      in if 2 powi k \<le> q then k else k - 1)"

definition round_half_even :: "rat \<Rightarrow> int" where
  "round_half_even x =
     (let f = \<lfloor>x\<rfloor>; d = x - of_int f
      in if d < 1 / 2 then f
         else if 1 / 2 < d then f + 1
         else if even f then f else f + 1)"

definition round_to_double :: "rat \<Rightarrow> rat option" where
  \<comment> \<open>round to nearest, ties to even, 53-bit significand, least exponent \<open>-1074\<close>;
      \<open>None\<close> when the rounded magnitude reaches \<open>2^1024\<close>\<close>
  "round_to_double q =
     (if q = 0 then Some 0
      else let a = \<bar>q\<bar>;
               e = max (floor_log2 a - 52) (- 1074);
               v = of_int (round_half_even (a / 2 powi e)) * 2 powi e
           in if 2 ^ 1024 \<le> v then None else Some (sgn q * v))"

definition int_truediv :: "int \<Rightarrow> int \<Rightarrow> py_error + pyfloat" where
  "int_truediv a b =
     (if b = 0 then Inl ZeroDivisionError
      else case round_to_double (of_int a / of_int b) of
             None \<Rightarrow> Inl OverflowError
           | Some v \<Rightarrow> Inr (Finite v))"

definition float_mul_int :: "pyfloat \<Rightarrow> int \<Rightarrow> pyfloat" where
  \<comment> \<open>\<open>x * n\<close> for a float \<open>x\<close> and a small positive \<open>int\<close> \<open>n\<close> (converted exactly)\<close>
  "float_mul_int x n =
     (case x of
        Infinity s \<Rightarrow> Infinity s
      | Finite v \<Rightarrow>
          (case round_to_double (v * of_int n) of
             None \<Rightarrow> Infinity (v < 0)
           | Some w \<Rightarrow> Finite w))"

definition py_round :: "pyfloat \<Rightarrow> py_error + int" where
  "py_round x = (case x of Infinity s \<Rightarrow> Inl OverflowError | Finite v \<Rightarrow> Inr (round_half_even v))"

section \<open>The static tables of \<open>recommendation.py\<close>\<close>

text \<open>
  The five topic names, by code point:
  \<open>topic_divide\<close> is U+5206 U+6CBB U+601D U+60F3,
  \<open>topic_pivot\<close> is U+57FA U+51C6 U+9009 U+62E9,
  \<open>topic_partition\<close> is U+5206 U+533A U+64CD U+4F5C,
  \<open>topic_recursion\<close> is U+9012 U+5F52 U+8C03 U+7528 and
  \<open>topic_complexity\<close> is U+590D U+6742 U+5EA6 U+5206 U+6790.
\<close>

definition topic_divide :: pystr where
  "topic_divide = [20998, 27835, 24605, 24819]"

definition topic_pivot :: pystr where
  "topic_pivot = [22522, 20934, 36873, 25321]"

definition topic_partition :: pystr where
  "topic_partition = [20998, 21306, 25805, 20316]"

definition topic_recursion :: pystr where
  "topic_recursion = [36882, 24402, 35843, 29992]"

definition topic_complexity :: pystr where
  "topic_complexity = [22797, 26434, 24230, 20998, 26512]"

definition KNOWLEDGE_MAP :: "(pystr \<times> int list) list" where
  "KNOWLEDGE_MAP =
     [(topic_divide, [1, 2, 7, 8]),
      (topic_pivot, [11, 12, 20, 21]),
      (topic_partition, [4, 10, 13, 14, 15, 16, 17, 18, 19, 22]),
      (topic_recursion, [3, 5, 6]),
      (topic_complexity, [])]"

section \<open>The skill scorer\<close>

text \<open>
  The profile dictionary: a key that is absent is \<open>None\<close>, and \<^verbatim>\<open>.get(key, default)\<close>
  is \<open>dict_get\<close>. Counts are \<open>int\<close>s, \<open>marked_lines\<close> is a list of line numbers and
  \<open>question_topics\<close> a list of strings.
\<close>

record user_profile =
  total_steps_viewed :: "int option"
  marked_lines :: "int list option"
  questions_asked :: "int option"
  question_topics :: "pystr list option"
  completed_runs :: "int option"

definition dict_get :: "'a option \<Rightarrow> 'a \<Rightarrow> 'a" where
  "dict_get v d = (case v of None \<Rightarrow> d | Some x \<Rightarrow> x)"

definition step_bonus_of :: "int \<Rightarrow> int \<Rightarrow> py_error + int" where
  \<comment> \<open>\<^verbatim>\<open>min(30, round((total_viewed / max(total_animation_steps, 1)) * 30))\<close>\<close>
  "step_bonus_of total_viewed total_animation_steps =
     (case int_truediv total_viewed (max total_animation_steps 1) of
        Inl e \<Rightarrow> Inl e
      | Inr r \<Rightarrow>
          (case py_round (float_mul_int r 30) of
             Inl e \<Rightarrow> Inl e
           | Inr n \<Rightarrow> Inr (min 30 n)))"

definition raw_score :: "int \<Rightarrow> int \<Rightarrow> int \<Rightarrow> int list \<Rightarrow> pystr list \<Rightarrow> pystr \<Rightarrow> int list \<Rightarrow> int" where
  \<comment> \<open>the loop variable \<open>score\<close> of one iteration, before it is clamped\<close>
  "raw_score base_score step_bonus complete_bonus marked qtopics knowledge lines =
     (let score = base_score + step_bonus + complete_bonus;
          score = (if knowledge \<in> set qtopics then score + 15 else score);
          marked_count = int (length (filter (\<lambda>ln. ln \<in> set lines) marked));
          score = score - marked_count * 10;
          score = (if knowledge = topic_complexity
                   then score + int (count_list qtopics topic_complexity) * 10
                   else score)
      in score)"

definition calculate_skill_scores :: "user_profile \<Rightarrow> int \<Rightarrow> py_error + (pystr \<times> int) list" where
  "calculate_skill_scores user_profile_dict total_animation_steps =
     (let total_viewed = dict_get (total_steps_viewed user_profile_dict) 0;
          base_score = (if 0 < total_viewed then 10 else 0)
      in case step_bonus_of total_viewed total_animation_steps of
           Inl e \<Rightarrow> Inl e
         | Inr step_bonus \<Rightarrow>
             (let completed = dict_get (completed_runs user_profile_dict) 0;
                  complete_bonus = min 30 (completed * 15);
                  marked = dict_get (marked_lines user_profile_dict) [];
                  qtopics = dict_get (question_topics user_profile_dict) []
              in Inr (fold (\<lambda>(knowledge, lines) scores.
                         AList.update knowledge
                           (max 0 (min 100
                              (raw_score base_score step_bonus complete_bonus marked qtopics
                                 knowledge lines)))
                           scores)
                       KNOWLEDGE_MAP [])))"

definition subscript :: "('k \<times> 'v) list \<Rightarrow> 'k \<Rightarrow> py_error + 'v" where
  \<comment> \<open>\<^verbatim>\<open>d[k]\<close>\<close>
  "subscript d k = (case map_of d k of None \<Rightarrow> Inl KeyError | Some v \<Rightarrow> Inr v)"

definition skill_score_at :: "user_profile \<Rightarrow> int \<Rightarrow> pystr \<Rightarrow> py_error + int" where
  \<comment> \<open>\<^verbatim>\<open>calculate_skill_scores(user_profile_dict, total_animation_steps)[knowledge]\<close>\<close>
  "skill_score_at user_profile_dict total_animation_steps knowledge =
     (case calculate_skill_scores user_profile_dict total_animation_steps of
        Inl e \<Rightarrow> Inl e
      | Inr scores \<Rightarrow> subscript scores knowledge)"

subsection \<open>Dictionaries whose values may be \<open>None\<close>\<close>

text \<open>
  The record \<open>user_profile\<close> holds under each key a value of the type the docstring
  gives. The dictionary that \<^verbatim>\<open>/analyze\<close> builds can also hold \<^verbatim>\<open>None\<close> under a key:
  \<^verbatim>\<open>/profile\<close> stores the client's \<^verbatim>\<open>total_steps_viewed\<close>, \<^verbatim>\<open>completed_runs\<close> and
  \<^verbatim>\<open>json.dumps(marked_lines)\<close> as they come, and a JSON \<^verbatim>\<open>null\<close> is read back as
  \<^verbatim>\<open>None\<close>. In \<open>profile_dict\<close> a key is absent (\<open>None\<close>), present with the value
  \<^verbatim>\<open>None\<close> (\<open>Some PyNone\<close>) or present with a value of the documented type
  (\<open>Some (Val x)\<close>). \<^verbatim>\<open>.get(key, default)\<close> gives the default only for an absent key, and
  the first operation on a \<^verbatim>\<open>None\<close> raises \<^verbatim>\<open>TypeError\<close>: the comparison
  \<^verbatim>\<open>total_viewed > 0\<close> before the division, the product \<^verbatim>\<open>completed * 15\<close> after it, and
  \<^verbatim>\<open>knowledge in question_topics\<close> and the iteration over \<^verbatim>\<open>marked_lines\<close> in the first
  round of the loop. \<^verbatim>\<open>questions_asked\<close> is never read.
\<close>

datatype 'a pyobj = PyNone | Val 'a

record profile_dict =
  d_total_steps_viewed :: "int pyobj option"
  d_marked_lines :: "int list pyobj option"
  d_questions_asked :: "int pyobj option"
  d_question_topics :: "pystr list pyobj option"
  d_completed_runs :: "int pyobj option"

definition calculate_skill_scores_dict :: "profile_dict \<Rightarrow> int \<Rightarrow> py_error + (pystr \<times> int) list" where
  "calculate_skill_scores_dict user_profile_dict total_animation_steps =
     (case dict_get (d_total_steps_viewed user_profile_dict) (Val 0) of
        PyNone \<Rightarrow> Inl TypeError
      | Val total_viewed \<Rightarrow>
          (let base_score = (if 0 < total_viewed then 10 else 0)
           in case step_bonus_of total_viewed total_animation_steps of
                Inl e \<Rightarrow> Inl e
              | Inr step_bonus \<Rightarrow>
                  (case dict_get (d_completed_runs user_profile_dict) (Val 0) of
                     PyNone \<Rightarrow> Inl TypeError
                   | Val completed \<Rightarrow>
                       (let complete_bonus = min 30 (completed * 15)
                        in case dict_get (d_question_topics user_profile_dict) (Val []) of
                             PyNone \<Rightarrow> Inl TypeError
                           | Val qtopics \<Rightarrow>
                               (case dict_get (d_marked_lines user_profile_dict) (Val []) of
                                  PyNone \<Rightarrow> Inl TypeError
                                | Val marked \<Rightarrow>
                                    Inr (fold (\<lambda>(knowledge, lines) scores.
                                           AList.update knowledge
                                             (max 0 (min 100
                                                (raw_score base_score step_bonus complete_bonus
                                                   marked qtopics knowledge lines)))
                                             scores)
                                         KNOWLEDGE_MAP []))))))"

definition documented_types :: "profile_dict \<Rightarrow> bool" where
  \<comment> \<open>none of the four keys that are read holds \<^verbatim>\<open>None\<close>\<close>
  "documented_types D =
     (d_total_steps_viewed D \<noteq> Some PyNone \<and> d_marked_lines D \<noteq> Some PyNone
      \<and> d_question_topics D \<noteq> Some PyNone \<and> d_completed_runs D \<noteq> Some PyNone)"

definition steps_viewed :: "profile_dict \<Rightarrow> int" where
  \<comment> \<open>the value of \<^verbatim>\<open>total_steps_viewed\<close> when it is an \<^verbatim>\<open>int\<close>, \<open>0\<close> when the key is absent\<close>
  "steps_viewed D = (case d_total_steps_viewed D of Some (Val n) \<Rightarrow> n | _ \<Rightarrow> 0)"

definition with_defaults :: "profile_dict \<Rightarrow> profile_dict" where
  \<comment> \<open>the dictionary with every absent key that is read set to its default\<close>
  "with_defaults D =
     D\<lparr>d_total_steps_viewed := Some (dict_get (d_total_steps_viewed D) (Val 0)),
       d_marked_lines := Some (dict_get (d_marked_lines D) (Val [])),
       d_question_topics := Some (dict_get (d_question_topics D) (Val [])),
       d_completed_runs := Some (dict_get (d_completed_runs D) (Val 0))\<rparr>"

definition strip :: "'a pyobj option \<Rightarrow> 'a option" where
  "strip v = (case v of Some (Val x) \<Rightarrow> Some x | _ \<Rightarrow> None)"

definition as_profile :: "profile_dict \<Rightarrow> user_profile" where
  \<comment> \<open>a dictionary of the documented types, as a \<open>user_profile\<close>\<close>
  "as_profile D =
     \<lparr>total_steps_viewed = strip (d_total_steps_viewed D),
      marked_lines = strip (d_marked_lines D),
      questions_asked = strip (d_questions_asked D),
      question_topics = strip (d_question_topics D),
      completed_runs = strip (d_completed_runs D)\<rparr>"

section \<open>The recommender\<close>

text \<open>
  An entry of \<open>KNOWLEDGE_GRAPH_RESOURCES\<close> is a dictionary with the three keys
  \<open>next\<close>, \<open>difficulty\<close> and \<open>tip\<close>, each present in all five entries.
\<close>

record resource =
  "next" :: pystr
  difficulty :: pystr
  tip :: pystr

definition resource_divide :: resource where
  "resource_divide =
     \<lparr>next = [24402, 24182, 25490, 24207],
      difficulty = [109, 101, 100, 105, 117, 109],
      tip =
        [29702, 35299, 20998, 27835, 21518, 65292, 21487, 20197, 23398, 20064, 21516, 26679,
         22522, 20110, 20998, 27835, 30340, 24402, 24182, 25490, 24207]\<rparr>"

definition resource_pivot :: resource where
  "resource_pivot =
     \<lparr>next = [38543, 26426, 21270, 24555, 25490],
      difficulty = [109, 101, 100, 105, 117, 109],
      tip =
        [25484, 25569, 22522, 20934, 36873, 25321, 21518, 65292, 23581, 35797, 23454, 29616,
         38543, 26426, 21270, 29256, 26412]\<rparr>"

definition resource_partition :: resource where
  "resource_partition =
     \<lparr>next = [72, 111, 97, 114, 101, 20998, 21306, 27861],
      difficulty = [104, 97, 114, 100],
      tip =
        [25484, 25569, 76, 111, 109, 117, 116, 111, 20998, 21306, 21518, 65292, 21487,
         20197, 23398, 20064, 26356, 39640, 25928, 30340, 72, 111, 97, 114, 101, 20998,
         21306]\<rparr>"

definition resource_recursion :: resource where
  "resource_recursion =
     \<lparr>next = [23614, 36882, 24402, 20248, 21270],
      difficulty = [104, 97, 114, 100],
      tip =
        [29702, 35299, 36882, 24402, 21518, 65292, 23398, 20064, 22914, 20309, 29992, 23614,
         36882, 24402, 20248, 21270, 20943, 23569, 26632, 31354, 38388]\<rparr>"

definition resource_complexity :: resource where
  "resource_complexity =
     \<lparr>next = [20027, 23450, 29702],
      difficulty = [104, 97, 114, 100],
      tip =
        [28145, 20837, 23398, 20064, 20027, 23450, 29702, 40, 77, 97, 115, 116, 101, 114,
         32, 84, 104, 101, 111, 114, 101, 109, 41, 26469, 20998, 26512, 36882, 24402, 31639,
         27861, 22797, 26434, 24230]\<rparr>"

definition advice_divide :: pystr where
  "advice_divide =
     [24314, 35758, 37325, 26032, 38405, 35835, 31639, 27861, 24605, 24819, 38754, 26495,
      65292, 29702, 35299, 34, 20998, 32780, 27835, 20043, 34, 30340, 26680, 24515,
      65306, 20808, 20998, 21306, 65292, 20877, 36882, 24402, 22788, 29702, 23376, 38382,
      39064, 12290]"

definition advice_pivot :: pystr where
  "advice_pivot =
     [35797, 30528, 24605, 32771, 65306, 22914, 26524, 36873, 19981, 21516, 30340, 20803,
      32032, 20316, 20026, 22522, 20934, 65292, 20998, 21306, 32467, 26524, 20250, 24590,
      26679, 65311, 21487, 20197, 21521, 65, 73, 21161, 25163, 25552, 38382, 34, 22522,
      20934, 36873, 25321, 31574, 30053, 34, 12290]"

definition advice_partition :: pystr where
  "advice_partition =
     [20998, 21306, 26159, 24555, 36895, 25490, 24207, 26368, 20851, 38190, 30340, 27493,
      39588, 12290, 24314, 35758, 29992, 21333, 27493, 27169, 24335, 20180, 32454, 35266,
      23519, 31532, 49, 49, 45, 50, 50, 34892, 20195, 30721, 30340, 25191, 34892, 36807,
      31243, 12290]"

definition advice_recursion :: pystr where
  "advice_recursion =
     [36882, 24402, 21487, 33021, 27604, 36739, 25277, 35937, 12290, 24314, 35758, 20851,
      27880, 31532, 53, 45, 54, 34892, 65292, 35266, 23519, 25490, 24207, 26159, 22914,
      20309, 34987, 20998, 35299, 20026, 26356, 23567, 30340, 23376, 38382, 39064, 30340,
      12290]"

definition advice_complexity :: pystr where
  "advice_complexity =
     [35797, 30528, 21521, 65, 73, 21161, 25163, 25552, 38382, 34, 26102, 38388, 22797,
      26434, 24230, 34, 25110, 34, 26368, 22351, 24773, 20917, 34, 65292, 28145, 20837,
      29702, 35299, 24555, 36895, 25490, 24207, 30340, 24615, 33021, 29305, 24449, 12290]"

definition KNOWLEDGE_GRAPH_RESOURCES :: "(pystr \<times> resource) list" where
  "KNOWLEDGE_GRAPH_RESOURCES =
     [(topic_divide, resource_divide),
      (topic_pivot, resource_pivot),
      (topic_partition, resource_partition),
      (topic_recursion, resource_recursion),
      (topic_complexity, resource_complexity)]"

definition ADVICE_MAP :: "(pystr \<times> pystr) list" where
  "ADVICE_MAP =
     [(topic_divide, advice_divide),
      (topic_pivot, advice_pivot),
      (topic_partition, advice_partition),
      (topic_recursion, advice_recursion),
      (topic_complexity, advice_complexity)]"

text \<open>
  The three tier labels, by code point: \<open>tag_good\<close> is U+638C U+63E1 U+826F U+597D
  (proficient), \<open>tag_medium\<close> is U+9700 U+8981 U+52A0 U+5F3A (needs reinforcement)
  and \<open>tag_focus\<close> is U+5EFA U+8BAE U+91CD U+70B9 U+5B66 U+4E60 (priority focus).
  The classes are the ASCII strings \<open>easy\<close>, \<open>medium\<close> and \<open>hard\<close>.
\<close>

definition tag_good :: pystr where
  "tag_good = [25484, 25569, 33391, 22909]"

definition tag_medium :: pystr where
  "tag_medium = [38656, 35201, 21152, 24378]"

definition tag_focus :: pystr where
  "tag_focus = [24314, 35758, 37325, 28857, 23398, 20064]"

definition class_easy :: pystr where
  "class_easy = [101, 97, 115, 121]"

definition class_medium :: pystr where
  "class_medium = [109, 101, 100, 105, 117, 109]"

definition class_hard :: pystr where
  "class_hard = [104, 97, 114, 100]"

text \<open>
  A recommendation record: the keys \<open>next_topic\<close>, \<open>next_difficulty\<close> and
  \<open>next_tip\<close> are set only when the topic is in \<open>KNOWLEDGE_GRAPH_RESOURCES\<close>, so
  they are optional.
\<close>

record recommendation =
  knowledge :: pystr
  score :: int
  tag :: pystr
  tag_class :: pystr
  advice :: pystr
  next_topic :: "pystr option"
  next_difficulty :: "pystr option"
  next_tip :: "pystr option"

definition slice_to :: "'a list \<Rightarrow> int \<Rightarrow> 'a list" where
  \<comment> \<open>\<^verbatim>\<open>xs[:n]\<close>: a negative \<open>n\<close> counts from the end\<close>
  "slice_to xs n = (if 0 \<le> n then take (nat n) xs else take (nat (int (length xs) + n)) xs)"

definition make_recommendation :: "pystr \<times> int \<Rightarrow> recommendation" where
  \<comment> \<open>the body of the loop over \<^verbatim>\<open>sorted_scores[:top_n]\<close>\<close>
  "make_recommendation item =
     (let (name, sc) = item;
          (tg, tg_class) =
            (if 70 \<le> sc then (tag_good, class_easy)
             else if 40 \<le> sc then (tag_medium, class_medium)
             else (tag_focus, class_hard));
          rec = \<lparr>knowledge = name, score = sc, tag = tg, tag_class = tg_class,
                  advice = dict_get (map_of ADVICE_MAP name) [],
                  next_topic = None, next_difficulty = None, next_tip = None\<rparr>
      in case map_of KNOWLEDGE_GRAPH_RESOURCES name of
           None \<Rightarrow> rec
         | Some res \<Rightarrow>
             rec\<lparr>next_topic := Some (next res),
                 next_difficulty := Some (difficulty res),
                 next_tip := Some (tip res)\<rparr>)"

definition generate_recommendations :: "(pystr \<times> int) list \<Rightarrow> int \<Rightarrow> recommendation list" where
  \<comment> \<open>\<^verbatim>\<open>sorted\<close> is a stable sort; \<open>skill_scores\<close> lists the items of the dictionary
      in its iteration order\<close>
  "generate_recommendations skill_scores top_n =
     map make_recommendation (slice_to (sort_key snd skill_scores) top_n)"

definition default_top_n :: int where
  \<comment> \<open>the default of the parameter \<^verbatim>\<open>top_n\<close>\<close>
  "default_top_n = 5"

section \<open>The chat matcher\<close>

text \<open>
  Modelled from the spec: \<^verbatim>\<open>app/utils/chat_engine.py\<close>, which defines
  \<^verbatim>\<open>match_answer\<close> and \<^verbatim>\<open>QA_KNOWLEDGE_BASE\<close>, is not among the sources; only its
  import and its call in \<^verbatim>\<open>routes/api.py\<close> are. The matcher scans the knowledge base
  in order, scores an entry by the number of its keywords that occur in the question as
  substrings, keeps the first entry that reaches the highest score, and returns the
  fallback answer with an empty topic when no entry scores above zero. The knowledge
  base and the text of the fallback answer are parameters.
\<close>

record qa_entry =
  qa_keywords :: "pystr list"
  qa_topic :: pystr
  qa_answer :: pystr

fun starts_with :: "pystr \<Rightarrow> pystr \<Rightarrow> bool" where
  "starts_with s [] = True"
| "starts_with [] (k # ks) = False"
| "starts_with (c # s) (k # ks) = (c = k \<and> starts_with s ks)"

fun py_in :: "pystr \<Rightarrow> pystr \<Rightarrow> bool" where
  \<comment> \<open>\<^verbatim>\<open>kw in s\<close> on strings: \<open>kw\<close> occurs in \<open>s\<close> as a substring\<close>
  "py_in kw [] = (kw = [])"
| "py_in kw (c # s) = (starts_with (c # s) kw \<or> py_in kw s)"

definition keyword_overlap :: "qa_entry \<Rightarrow> pystr \<Rightarrow> nat" where
  "keyword_overlap entry question = length (filter (\<lambda>kw. py_in kw question) (qa_keywords entry))"

fun best_entry :: "qa_entry list \<Rightarrow> pystr \<Rightarrow> nat \<Rightarrow> qa_entry option \<Rightarrow> qa_entry option" where
  \<comment> \<open>the scan: \<open>best_score\<close> starts at \<open>0\<close> and only a strictly higher score replaces
      the entry kept so far\<close>
  "best_entry [] question best_score best = best"
| "best_entry (entry # entries) question best_score best =
     (let sc = keyword_overlap entry question
      in if best_score < sc then best_entry entries question sc (Some entry)
         else best_entry entries question best_score best)"

definition match_answer :: "qa_entry list \<Rightarrow> pystr \<Rightarrow> pystr \<Rightarrow> pystr \<times> pystr" where
  "match_answer QA_KNOWLEDGE_BASE fallback_answer question =
     (case best_entry QA_KNOWLEDGE_BASE question 0 None of
        None \<Rightarrow> (fallback_answer, [])
      | Some entry \<Rightarrow> (qa_answer entry, qa_topic entry))"

section \<open>Example inputs\<close>

text \<open>Concrete profiles and score tables at which the theorems below are instantiated.\<close>

definition p0 :: user_profile where
  "p0 = \<lparr>total_steps_viewed = Some 0, marked_lines = Some [1], questions_asked = Some 1,
     question_topics = Some [topic_complexity], completed_runs = Some 2\<rparr>"


definition d_empty :: profile_dict where
  "d_empty = \<lparr>d_total_steps_viewed = None, d_marked_lines = None, d_questions_asked = None,
     d_question_topics = None, d_completed_runs = None\<rparr>"

definition d_null_marks :: profile_dict where
  "d_null_marks = \<lparr>d_total_steps_viewed = Some (Val 0), d_marked_lines = Some PyNone,
     d_questions_asked = None, d_question_topics = None, d_completed_runs = None\<rparr>"

definition d1 :: profile_dict where
  "d1 = \<lparr>d_total_steps_viewed = Some (Val 25), d_marked_lines = Some (Val [1]),
     d_questions_asked = Some (Val 3), d_question_topics = Some (Val [topic_complexity]),
     d_completed_runs = Some (Val 1)\<rparr>"





definition kb_example :: "qa_entry list" where
  "kb_example =
     [\<lparr>qa_keywords = [[97], [98]], qa_topic = [84, 49], qa_answer = [65, 49]\<rparr>,
      \<lparr>qa_keywords = [[98], [99]], qa_topic = [84, 50], qa_answer = [65, 50]\<rparr>,
      \<lparr>qa_keywords = [[99], [98]], qa_topic = [84, 51], qa_answer = [65, 51]\<rparr>]"

section \<open>Properties of the float operations\<close>

lemma bit_length_bounds:
  "0 < n \<Longrightarrow> 1 \<le> bit_length n \<and> 2 ^ nat (bit_length n - 1) \<le> n \<and> n < 2 ^ nat (bit_length n)"
proof (induction n rule: bit_length.induct)
  case (1 n)
  show ?case
  proof (cases "n = 1")
    case True
    have "bit_length 1 = 1"
      by (simp add: bit_length.simps [of 1] bit_length.simps [of 0])
    with True show ?thesis by simp
  next
    case False
    with "1.prems" have half: "0 < n div 2" by linarith
    from "1.prems" have "\<not> n \<le> 0" by simp
    from "1.IH" [OF this half]
    have ih: "1 \<le> bit_length (n div 2)" "2 ^ nat (bit_length (n div 2) - 1) \<le> n div 2"
      "n div 2 < 2 ^ nat (bit_length (n div 2))" by simp_all
    have bl: "bit_length n = 1 + bit_length (n div 2)"
      using "1.prems" by (simp add: bit_length.simps [of n])
    have nat1: "nat (bit_length n - 1) = Suc (nat (bit_length (n div 2) - 1))"
      using ih(1) bl by simp
    have nat2: "nat (bit_length n) = Suc (nat (bit_length (n div 2)))"
      using ih(1) bl by simp
    have "(2::int) ^ nat (bit_length n - 1) \<le> n"
      using ih(2) unfolding nat1 by simp
    moreover have "n < 2 ^ nat (bit_length n)"
      using ih(3) unfolding nat2 by simp
    moreover have "1 \<le> bit_length n"
      using bl ih(1) by linarith
    ultimately show ?thesis by blast
  qed
qed

lemma bit_length_powi:
  assumes "0 < n"
  shows "(2::rat) powi (bit_length n - 1) \<le> of_int n" "(of_int n :: rat) < 2 powi bit_length n"
proof -
  from bit_length_bounds [OF assms]
  have b: "1 \<le> bit_length n" "2 ^ nat (bit_length n - 1) \<le> n" "n < 2 ^ nat (bit_length n)"
    by simp_all
  have "(2::rat) powi (bit_length n - 1) = of_int (2 ^ nat (bit_length n - 1))"
    using b(1) by (simp add: power_int_def)
  also have "\<dots> \<le> of_int n"
    using b(2) by (simp only: of_int_le_iff)
  finally show "(2::rat) powi (bit_length n - 1) \<le> of_int n" .
  have "(of_int n :: rat) < of_int (2 ^ nat (bit_length n))"
    using b(3) by (simp only: of_int_less_iff)
  also have "\<dots> = 2 powi bit_length n"
    using b(1) by (simp add: power_int_def)
  finally show "(of_int n :: rat) < 2 powi bit_length n" .
qed

lemma floor_log2_bounds:
  assumes "0 < q"
  shows "2 powi floor_log2 q \<le> q" "q < 2 powi (floor_log2 q + 1)"
proof -
  obtain a b where ab: "quotient_of q = (a, b)" by (cases "quotient_of q")
  then have b: "0 < b" and q: "q = of_int a / of_int b"
    by (auto simp: quotient_of_denom_pos quotient_of_div)
  from assms q b have a: "0 < a"
    by (simp add: zero_less_divide_iff)
  define k where "k = bit_length a - bit_length b"
  have fl: "floor_log2 q = (if 2 powi k \<le> q then k else k - 1)"
    by (simp add: floor_log2_def ab k_def)
  have rb: "(0::rat) < of_int b" using b by simp
  have lo: "2 powi (k - 1) \<le> q"
  proof -
    have "(2::rat) powi (k - 1) * of_int b \<le> 2 powi (k - 1) * 2 powi bit_length b"
      using bit_length_powi(2) [OF b] by (intro mult_left_mono) simp_all
    also have "\<dots> = 2 powi (bit_length a - 1)"
      by (simp add: k_def power_int_add [symmetric])
    also have "\<dots> \<le> of_int a" by (rule bit_length_powi(1) [OF a])
    finally show ?thesis using rb by (simp add: q pos_le_divide_eq)
  qed
  have hi: "q < 2 powi (k + 1)"
  proof -
    have "(of_int a :: rat) < 2 powi bit_length a" by (rule bit_length_powi(2) [OF a])
    also have "\<dots> = 2 powi (k + 1) * 2 powi (bit_length b - 1)"
      by (simp add: k_def power_int_add [symmetric])
    also have "\<dots> \<le> 2 powi (k + 1) * of_int b"
      using bit_length_powi(1) [OF b] by (intro mult_left_mono) simp_all
    finally show ?thesis using rb by (simp add: q pos_divide_less_eq)
  qed
  show "2 powi floor_log2 q \<le> q" using lo by (simp add: fl)
  show "q < 2 powi (floor_log2 q + 1)" using hi by (auto simp: fl)
qed


lemma powi2_le_iff: "(2::rat) powi m \<le> 2 powi n \<longleftrightarrow> m \<le> n"
proof
  assume le: "(2::rat) powi m \<le> 2 powi n"
  show "m \<le> n"
  proof (rule ccontr)
    assume "\<not> m \<le> n"
    then have "n < m" by simp
    then have "(2::rat) powi n < 2 powi m"
      by (rule power_int_strict_increasing) simp
    with le show False by simp
  qed
next
  assume "m \<le> n"
  then show "(2::rat) powi m \<le> 2 powi n"
    by (rule power_int_increasing) simp
qed

lemma powi2_less_iff: "(2::rat) powi m < 2 powi n \<longleftrightarrow> m < n"
  using powi2_le_iff [of n m] by (auto simp: not_le [symmetric])

lemma round_half_even_le:
  assumes "x \<le> of_int n"
  shows "round_half_even x \<le> n"
proof (cases "x = of_int n")
  case True
  then show ?thesis by (simp add: round_half_even_def)
next
  case False
  with assms have "x < of_int n" by simp
  then have "\<lfloor>x\<rfloor> < n" by (simp add: floor_less_iff)
  then show ?thesis by (simp add: round_half_even_def Let_def)
qed

lemma round_half_even_ge:
  assumes "of_int n \<le> x"
  shows "n \<le> round_half_even x"
proof -
  from assms have "n \<le> \<lfloor>x\<rfloor>" by (simp add: le_floor_iff)
  then show ?thesis by (simp add: round_half_even_def Let_def)
qed

lemma round_to_double_bounded:
  assumes q: "\<bar>q\<bar> \<le> 2 ^ k" and k: "k \<le> 1023"
  shows "\<exists>v. round_to_double q = Some v \<and> \<bar>v\<bar> \<le> 2 ^ k"
proof (cases "q = 0")
  case True
  then show ?thesis by (simp add: round_to_double_def)
next
  case False
  define a where "a = \<bar>q\<bar>"
  define e where "e = max (floor_log2 a - 52) (- 1074)"
  define m where "m = round_half_even (a / 2 powi e)"
  define v where "v = (of_int m :: rat) * 2 powi e"
  have a: "0 < a" using False by (simp add: a_def)
  have "(2::rat) powi floor_log2 a \<le> a"
    by (rule floor_log2_bounds(1) [OF a])
  also have "a \<le> 2 powi int k"
    using q by (simp add: a_def)
  finally have fl: "floor_log2 a \<le> int k"
    by (simp only: powi2_le_iff)
  then have e: "e \<le> int k" by (simp add: e_def)
  have p: "(0::rat) < 2 powi e" by simp
  have "a / 2 powi e \<le> 2 powi int k / 2 powi e"
    using q p by (simp add: a_def divide_right_mono)
  also have "\<dots> = 2 powi (int k - e)"
    by (simp add: power_int_diff)
  also have "\<dots> = of_int (2 ^ nat (int k - e))"
    using e by (simp add: power_int_def)
  finally have "m \<le> 2 ^ nat (int k - e)"
    unfolding m_def by (rule round_half_even_le)
  then have "(of_int m :: rat) \<le> of_int (2 ^ nat (int k - e))"
    by (simp only: of_int_le_iff)
  also have "\<dots> = 2 powi (int k - e)"
    using e by (simp add: power_int_def)
  finally have "v \<le> 2 powi (int k - e) * 2 powi e"
    unfolding v_def using p by (simp add: mult_right_mono)
  also have "\<dots> = 2 ^ k"
    by (simp add: power_int_add [symmetric])
  finally have v: "v \<le> 2 ^ k" .
  have "(0::rat) \<le> a / 2 powi e" using a by simp
  then have "0 \<le> m" unfolding m_def
    using round_half_even_ge [of 0 "a / 2 powi e"] by simp
  then have v0: "0 \<le> v" by (simp add: v_def)
  have "(2::rat) ^ k \<le> 2 ^ 1023" using k by (intro power_increasing) simp_all
  also have "\<dots> < 2 ^ 1024" by (intro power_strict_increasing) simp_all
  finally have "v < 2 ^ 1024" using v by simp
  then have "round_to_double q = Some (sgn q * v)"
    using False
    by (simp add: round_to_double_def Let_def a_def [symmetric] e_def [symmetric]
        m_def [symmetric] v_def [symmetric] del: power_numeral)
  moreover have "\<bar>sgn q * v\<bar> \<le> 2 ^ k"
    using v v0 False by (simp add: abs_mult abs_sgn_eq)
  ultimately show ?thesis by blast
qed

lemma round_to_double_overflow:
  assumes q: "2 ^ 1024 \<le> \<bar>q\<bar>"
  shows "round_to_double q = None"
proof -
  define a where "a = \<bar>q\<bar>"
  define e where "e = max (floor_log2 a - 52) (- 1074)"
  define m where "m = round_half_even (a / 2 powi e)"
  define v where "v = (of_int m :: rat) * 2 powi e"
  have "(0::rat) < 2 ^ 1024" by simp
  with q have a: "0 < a" unfolding a_def by linarith
  then have q0: "q \<noteq> 0" by (auto simp: a_def)
  have "(2::rat) powi 1024 \<le> a" using q by (simp add: a_def del: power_numeral)
  also have "a < 2 powi (floor_log2 a + 1)" by (rule floor_log2_bounds(2) [OF a])
  finally have "1024 < floor_log2 a + 1"
    by (simp only: powi2_less_iff)
  then have fl: "1024 \<le> floor_log2 a" by simp
  then have e: "e = floor_log2 a - 52" by (simp add: e_def)
  have p: "(0::rat) < 2 powi e" by simp
  have "(of_int (2 ^ 52) :: rat) = 2 powi (floor_log2 a - e)"
    by (simp add: e)
  also have "\<dots> = 2 powi floor_log2 a / 2 powi e"
    by (simp add: power_int_diff)
  also have "\<dots> \<le> a / 2 powi e"
    using floor_log2_bounds(1) [OF a] p by (simp add: divide_right_mono)
  finally have "2 ^ 52 \<le> m"
    unfolding m_def by (rule round_half_even_ge)
  then have "(of_int (2 ^ 52) :: rat) \<le> of_int m"
    by (simp only: of_int_le_iff)
  then have "(2::rat) powi 52 * 2 powi e \<le> v"
    unfolding v_def using p by (simp add: mult_right_mono)
  moreover have "(2::rat) powi 52 * 2 powi e = 2 powi floor_log2 a"
    by (simp add: e power_int_add [symmetric] del: power_int_numeral)
  moreover have "(2::rat) powi 1024 \<le> 2 powi floor_log2 a"
    using fl by (simp only: powi2_le_iff)
  ultimately have "2 ^ 1024 \<le> v" by (simp del: power_numeral)
  then show ?thesis
    using q0
    by (simp add: round_to_double_def Let_def a_def [symmetric] e_def [symmetric]
        m_def [symmetric] v_def [symmetric] del: power_numeral)
qed


section \<open>Properties of the skill scorer\<close>

lemma step_bonus_of_returns:
  assumes tv: "\<bar>tv\<bar> \<le> 2 ^ 1000"
  shows "\<exists>n. step_bonus_of tv tas = Inr n"
proof -
  define d where "d = max tas 1"
  have d: "1 \<le> d" by (simp add: d_def)
  have "\<bar>of_int tv / of_int d :: rat\<bar> = of_int \<bar>tv\<bar> / of_int d"
    using d by simp
  also have "\<dots> \<le> of_int \<bar>tv\<bar>"
    using d by (simp add: divide_le_eq_1 mult_le_cancel_left1 pos_divide_le_eq)
  also have "\<dots> \<le> of_int (2 ^ 1000)"
    using tv by (simp only: of_int_le_iff)
  finally have "\<bar>of_int tv / of_int d :: rat\<bar> \<le> 2 ^ 1000"
    by (simp del: power_numeral)
  from round_to_double_bounded [OF this]
  obtain v where v: "round_to_double (of_int tv / of_int d) = Some v" "\<bar>v\<bar> \<le> 2 ^ 1000"
    by auto
  have "\<bar>v * of_int 30\<bar> = \<bar>v\<bar> * 30" by (simp add: abs_mult)
  also have "\<dots> \<le> 2 ^ 1000 * 2 ^ 5"
    using v(2) by (intro mult_mono) simp_all
  also have "\<dots> = (2::rat) ^ 1005"
    by (simp add: power_add [symmetric] del: power_numeral)
  finally have "\<bar>v * of_int 30\<bar> \<le> 2 ^ 1005" .
  from round_to_double_bounded [OF this]
  obtain w where w: "round_to_double (v * of_int 30) = Some w"
    by auto
  have "d \<noteq> 0" using d by simp
  then show ?thesis
    using v(1) w
    by (simp add: step_bonus_of_def int_truediv_def float_mul_int_def py_round_def
        d_def [symmetric])
qed

lemma step_bonus_of_overflow:
  assumes tv: "2 ^ 1024 \<le> tv" and tas: "tas \<le> 1"
  shows "step_bonus_of tv tas = Inl OverflowError"
proof -
  have d: "max tas 1 = 1" using tas by simp
  have "(of_int (2 ^ 1024) :: rat) \<le> of_int tv"
    using tv by (simp only: of_int_le_iff)
  also have "\<dots> \<le> \<bar>of_int tv\<bar>"
    by (rule abs_ge_self)
  finally have "2 ^ 1024 \<le> \<bar>of_int tv :: rat\<bar>"
    by (simp only: of_int_power of_int_numeral)
  then have "round_to_double (of_int tv) = None"
    by (rule round_to_double_overflow)
  then show ?thesis
    by (simp add: step_bonus_of_def int_truediv_def d)
qed

lemma step_bonus_of_error:
  assumes "step_bonus_of tv tas = Inl e"
  shows "e = OverflowError"
proof -
  have "max tas 1 \<noteq> 0" by simp
  then show ?thesis
    using assms
    by (auto simp: step_bonus_of_def int_truediv_def float_mul_int_def py_round_def
        split: option.splits sum.splits pyfloat.splits)
qed

lemma step_bonus_of_le_30:
  assumes "step_bonus_of tv tas = Inr n"
  shows "n \<le> 30"
  using assms
  by (auto simp: step_bonus_of_def split: sum.splits)

lemma raw_score_eq:
  "raw_score b sb cb ms qts T ls =
     b + sb + cb + (if T \<in> set qts then 15 else 0)
       - 10 * int (length (filter (\<lambda>ln. ln \<in> set ls) ms))
       + (if T = topic_complexity then 10 * int (count_list qts topic_complexity) else 0)"
  by (simp add: raw_score_def Let_def)

lemmas topic_defs =
  topic_divide_def topic_pivot_def topic_partition_def topic_recursion_def topic_complexity_def

lemma calculate_skill_scores_Inr:
  assumes "step_bonus_of (dict_get (total_steps_viewed P) 0) tas = Inr sb"
  shows "calculate_skill_scores P tas =
    Inr (map (\<lambda>(k, ls). (k, max 0 (min 100
          (raw_score (if 0 < dict_get (total_steps_viewed P) 0 then 10 else 0) sb
             (min 30 (dict_get (completed_runs P) 0 * 15))
             (dict_get (marked_lines P) []) (dict_get (question_topics P) []) k ls))))
         KNOWLEDGE_MAP)"
  using assms
  by (simp add: calculate_skill_scores_def Let_def KNOWLEDGE_MAP_def topic_defs)

lemma calculate_skill_scores_Inl:
  assumes "step_bonus_of (dict_get (total_steps_viewed P) 0) tas = Inl e"
  shows "calculate_skill_scores P tas = Inl e"
  using assms by (simp add: calculate_skill_scores_def Let_def)

lemma distinct_KNOWLEDGE_MAP: "distinct (map fst KNOWLEDGE_MAP)"
  by (simp add: KNOWLEDGE_MAP_def topic_defs)

lemma subscript_map:
  assumes "distinct (map fst kvs)" "(k, v) \<in> set kvs"
  shows "subscript (map (\<lambda>(k, v). (k, f k v)) kvs) k = Inr (f k v)"
proof -
  have "map_of (map (\<lambda>(k, v). (k, f k v)) kvs) k = Some (f k v)"
    using assms by (induction kvs) (auto simp: rev_image_eqI)
  then show ?thesis by (simp add: subscript_def)
qed

lemma step_bonus_of_zero: "step_bonus_of 0 tas = Inr 0"
proof -
  have "max tas 1 \<noteq> 0" by simp
  then show ?thesis
    by (simp add: step_bonus_of_def int_truediv_def round_to_double_def float_mul_int_def
        py_round_def round_half_even_def)
qed

lemma skill_score_at_topic:
  assumes "(T, ls) \<in> set KNOWLEDGE_MAP"
  shows "skill_score_at P tas T =
    (case step_bonus_of (dict_get (total_steps_viewed P) 0) tas of
       Inl e \<Rightarrow> Inl e
     | Inr sb \<Rightarrow>
         Inr (max 0 (min 100
           (raw_score (if 0 < dict_get (total_steps_viewed P) 0 then 10 else 0) sb
              (min 30 (dict_get (completed_runs P) 0 * 15))
              (dict_get (marked_lines P) []) (dict_get (question_topics P) []) T ls))))"
proof (cases "step_bonus_of (dict_get (total_steps_viewed P) 0) tas")
  case (Inl e)
  then show ?thesis
    by (simp add: skill_score_at_def calculate_skill_scores_Inl)
next
  case (Inr sb)
  show ?thesis
    unfolding skill_score_at_def calculate_skill_scores_Inr [OF Inr] Inr sum.case
    by (rule subscript_map [OF distinct_KNOWLEDGE_MAP assms])
qed

lemma p0_scores:
  "calculate_skill_scores p0 50 =
     Inr [(topic_divide, 20), (topic_pivot, 30), (topic_partition, 30),
          (topic_recursion, 30), (topic_complexity, 55)]"
proof -
  have "step_bonus_of (dict_get (total_steps_viewed p0) 0) 50 = Inr 0"
    by (simp add: p0_def dict_get_def step_bonus_of_zero)
  from calculate_skill_scores_Inr [OF this] show ?thesis
    by (simp add: p0_def dict_get_def KNOWLEDGE_MAP_def raw_score_def topic_defs)
qed

section \<open>The claims about the skill scorer\<close>

text \<open>
  Claim C1: whatever the profile and whatever \<open>total_animation_steps\<close>, every score in
  the mapping that \<open>calculate_skill_scores\<close> returns lies between \<open>0\<close> and \<open>100\<close>.
\<close>

theorem scores_in_range:
  assumes "calculate_skill_scores P tas = Inr scores" and "(T, v) \<in> set scores"
  shows "0 \<le> v \<and> v \<le> 100"
proof (cases "step_bonus_of (dict_get (total_steps_viewed P) 0) tas")
  case (Inl e)
  with assms(1) show ?thesis
    by (simp add: calculate_skill_scores_Inl)
next
  case (Inr sb)
  from assms show ?thesis
    unfolding calculate_skill_scores_Inr [OF Inr] by auto
qed

theorem scores_in_range_witness:
  "calculate_skill_scores p0 50 =
     Inr [(topic_divide, 20), (topic_pivot, 30), (topic_partition, 30),
          (topic_recursion, 30), (topic_complexity, 55)]
   \<and> (0::int) \<le> 55 \<and> (55::int) \<le> 100"
proof -
  have m: "(topic_complexity, 55) \<in> set [(topic_divide, 20), (topic_pivot, 30),
      (topic_partition, 30), (topic_recursion, 30), (topic_complexity, 55::int)]"
    by simp
  from scores_in_range [OF p0_scores m] p0_scores show ?thesis by simp
qed

lemma step_bonus_of_nonpos: "tas \<le> 0 \<Longrightarrow> step_bonus_of tv tas = step_bonus_of tv 1"
  by (simp add: step_bonus_of_def max_def)

lemma calculate_skill_scores_cong:
  assumes "step_bonus_of (dict_get (total_steps_viewed P) 0) tas =
           step_bonus_of (dict_get (total_steps_viewed P) 0) tas'"
  shows "calculate_skill_scores P tas = calculate_skill_scores P tas'"
  using assms by (simp add: calculate_skill_scores_def Let_def)

lemma keys_of_scores:
  assumes "calculate_skill_scores P tas = Inr scores"
  shows "map fst scores =
     [topic_divide, topic_pivot, topic_partition, topic_recursion, topic_complexity]"
proof (cases "step_bonus_of (dict_get (total_steps_viewed P) 0) tas")
  case (Inl e)
  from calculate_skill_scores_Inl [OF Inl] assms show ?thesis by simp
next
  case (Inr sb)
  from calculate_skill_scores_Inr [OF Inr] assms show ?thesis
    by (auto simp: KNOWLEDGE_MAP_def)
qed

lemma complexity_lines:
  assumes "(T, ls) \<in> set KNOWLEDGE_MAP"
  shows "(ls = []) = (T = topic_complexity)"
  using assms by (auto simp: KNOWLEDGE_MAP_def topic_defs)

lemma skill_score_at_InrD:
  assumes "(T, ls) \<in> set KNOWLEDGE_MAP" and "skill_score_at P tas T = Inr v"
  shows "\<exists>sb. step_bonus_of (dict_get (total_steps_viewed P) 0) tas = Inr sb \<and> sb \<le> 30
     \<and> v = max 0 (min 100
           (raw_score (if 0 < dict_get (total_steps_viewed P) 0 then 10 else 0) sb
              (min 30 (dict_get (completed_runs P) 0 * 15))
              (dict_get (marked_lines P) []) (dict_get (question_topics P) []) T ls))"
proof (cases "step_bonus_of (dict_get (total_steps_viewed P) 0) tas")
  case (Inl e)
  with assms show ?thesis by (simp add: skill_score_at_topic [OF assms(1)])
next
  case (Inr sb)
  from step_bonus_of_le_30 [OF Inr] have "sb \<le> 30" .
  with assms Inr show ?thesis by (simp add: skill_score_at_topic [OF assms(1)])
qed

lemma skill_score_at_InrI:
  assumes "(T, ls) \<in> set KNOWLEDGE_MAP"
    and "step_bonus_of (dict_get (total_steps_viewed P) 0) tas = Inr sb"
  shows "skill_score_at P tas T = Inr (max 0 (min 100
           (raw_score (if 0 < dict_get (total_steps_viewed P) 0 then 10 else 0) sb
              (min 30 (dict_get (completed_runs P) 0 * 15))
              (dict_get (marked_lines P) []) (dict_get (question_topics P) []) T ls)))"
  using assms(2) by (simp add: skill_score_at_topic [OF assms(1)])

lemma size_filter_replicate_mset:
  "size (filter_mset P (replicate_mset k x)) = (if P x then k else 0)"
  by (induction k) auto

lemma mark_count_add:
  assumes "mset ms' = mset ms + replicate_mset k L" and "L \<in> set ls"
  shows "length (filter (\<lambda>ln. ln \<in> set ls) ms') = length (filter (\<lambda>ln. ln \<in> set ls) ms) + k"
proof -
  have "length (filter (\<lambda>ln. ln \<in> set ls) ms') = size (filter_mset (\<lambda>ln. ln \<in> set ls) (mset ms'))"
    by (simp only: mset_filter [symmetric] size_mset)
  also have "\<dots> = size (filter_mset (\<lambda>ln. ln \<in> set ls) (mset ms)) + k"
    using assms by (simp add: size_filter_replicate_mset)
  also have "size (filter_mset (\<lambda>ln. ln \<in> set ls) (mset ms)) = length (filter (\<lambda>ln. ln \<in> set ls) ms)"
    by (simp only: mset_filter [symmetric] size_mset)
  finally show ?thesis .
qed

lemma marks_deduction:
  assumes T: "(T, ls) \<in> set KNOWLEDGE_MAP" and L: "L \<in> set ls"
    and ms: "mset ms' = mset (dict_get (marked_lines P) []) + replicate_mset k L"
    and v: "skill_score_at P tas T = Inr v"
  shows "skill_score_at (P\<lparr>marked_lines := Some ms'\<rparr>) tas T = Inr (max 0 (v - 10 * int k))"
proof -
  let ?P' = "P\<lparr>marked_lines := Some ms'\<rparr>"
  let ?b = "if 0 < dict_get (total_steps_viewed P) 0 then 10 else (0::int)"
  let ?cb = "min 30 (dict_get (completed_runs P) 0 * 15)"
  let ?q = "if T \<in> set (dict_get (question_topics P) []) then 15 else (0::int)"
  let ?m = "int (length (filter (\<lambda>ln. ln \<in> set ls) (dict_get (marked_lines P) [])))"
  from skill_score_at_InrD [OF T v] obtain sb
    where sb: "step_bonus_of (dict_get (total_steps_viewed P) 0) tas = Inr sb"
      and le: "sb \<le> 30"
      and veq: "v = max 0 (min 100 (raw_score ?b sb ?cb (dict_get (marked_lines P) [])
                  (dict_get (question_topics P) []) T ls))"
    by blast
  from L have "ls \<noteq> []" by auto
  with complexity_lines [OF T] have nc: "T \<noteq> topic_complexity" by simp
  have r: "raw_score ?b sb ?cb (dict_get (marked_lines P) []) (dict_get (question_topics P) []) T ls
        = ?b + sb + ?cb + ?q - 10 * ?m"
    using nc by (simp add: raw_score_eq)
  have cnt: "int (length (filter (\<lambda>ln. ln \<in> set ls) ms')) = ?m + int k"
    using mark_count_add [OF ms L] by simp
  have r': "raw_score ?b sb ?cb ms' (dict_get (question_topics P) []) T ls
        = ?b + sb + ?cb + ?q - 10 * ?m - 10 * int k"
    using nc by (simp add: raw_score_eq cnt)
  have sb': "step_bonus_of (dict_get (total_steps_viewed ?P') 0) tas = Inr sb"
    using sb by simp
  have "skill_score_at ?P' tas T = Inr (max 0 (min 100
          (raw_score ?b sb ?cb ms' (dict_get (question_topics P) []) T ls)))"
    using skill_score_at_InrI [OF T sb'] by (simp add: dict_get_def)
  also have "max 0 (min 100 (raw_score ?b sb ?cb ms' (dict_get (question_topics P) []) T ls))
      = max 0 (v - 10 * int k)"
    unfolding veq r r' using le by (simp add: max_def min_def)
  finally show ?thesis .
qed

lemma p0_divide: "skill_score_at p0 50 topic_divide = Inr 20"
  by (simp add: skill_score_at_def p0_scores subscript_def)

text \<open>
  Claim C4: for a topic \<open>T\<close> of \<open>KNOWLEDGE_MAP\<close> and a line \<open>L\<close> of its line set, appending
  \<open>L\<close> to the \<open>marked_lines\<close> of a profile whose score for \<open>T\<close> is \<open>v\<close> gives the score
  \<open>max 0 (v - 10)\<close>: ten less, clamped at \<open>0\<close>. Every other field and
  \<open>total_animation_steps\<close> stay as they are.
\<close>

theorem mark_penalty:
  assumes "(T, ls) \<in> set KNOWLEDGE_MAP" and "L \<in> set ls"
    and "skill_score_at P tas T = Inr v"
  shows "skill_score_at (P\<lparr>marked_lines := Some (dict_get (marked_lines P) [] @ [L])\<rparr>) tas T
           = Inr (max 0 (v - 10))"
proof -
  have "mset (dict_get (marked_lines P) [] @ [L])
          = mset (dict_get (marked_lines P) []) + replicate_mset 1 L"
    by simp
  from marks_deduction [OF assms(1) assms(2) this assms(3)] show ?thesis by simp
qed

theorem mark_penalty_witness:
  "(topic_divide, [1, 2, 7, 8]) \<in> set KNOWLEDGE_MAP \<and> (2::int) \<in> set [1, 2, 7, 8]
   \<and> skill_score_at p0 50 topic_divide = Inr 20
   \<and> skill_score_at (p0\<lparr>marked_lines := Some (dict_get (marked_lines p0) [] @ [2])\<rparr>) 50 topic_divide
       = Inr 10"
proof -
  have a: "(topic_divide, [1, 2, 7, 8]) \<in> set KNOWLEDGE_MAP" by (simp add: KNOWLEDGE_MAP_def)
  have b: "(2::int) \<in> set [1, 2, 7, 8]" by simp
  from mark_penalty [OF a b p0_divide] a b p0_divide show ?thesis by simp
qed

text \<open>
  Claim C9: marks are counted with multiplicity. If the new \<open>marked_lines\<close> list holds the
  old marks and \<open>k\<close> further copies of a line \<open>L\<close> of topic \<open>T\<close>, in any order, the score of
  \<open>T\<close> goes from \<open>v\<close> to \<open>max 0 (v - 10 * k)\<close>; so above the clamp at \<open>0\<close> a duplicated mark
  gives a strictly lower score than the same mark listed once.
\<close>

theorem marks_by_multiplicity:
  assumes "(T, ls) \<in> set KNOWLEDGE_MAP" and "L \<in> set ls"
    and "mset ms' = mset (dict_get (marked_lines P) []) + replicate_mset k L"
    and "skill_score_at P tas T = Inr v"
  shows "\<exists>v'. skill_score_at (P\<lparr>marked_lines := Some ms'\<rparr>) tas T = Inr v'
           \<and> v' = max 0 (v - 10 * int k) \<and> (0 < k \<and> 0 < v \<longrightarrow> v' < v)"
proof -
  from marks_deduction [OF assms]
  have "skill_score_at (P\<lparr>marked_lines := Some ms'\<rparr>) tas T = Inr (max 0 (v - 10 * int k))" .
  moreover have "0 < k \<and> 0 < v \<longrightarrow> max 0 (v - 10 * int k) < v" by auto
  ultimately show ?thesis by blast
qed

theorem marks_by_multiplicity_witness:
  "(topic_divide, [1, 2, 7, 8]) \<in> set KNOWLEDGE_MAP \<and> (1::int) \<in> set [1, 2, 7, 8]
   \<and> mset [1, 7, 1 :: int] = mset (dict_get (marked_lines p0) []) + replicate_mset 1 1 + {#7#}
   \<and> skill_score_at p0 50 topic_divide = Inr 20
   \<and> skill_score_at (p0\<lparr>marked_lines := Some [1, 1]\<rparr>) 50 topic_divide = Inr 10
   \<and> (10::int) < 20"
proof -
  have a: "(topic_divide, [1, 2, 7, 8]) \<in> set KNOWLEDGE_MAP" by (simp add: KNOWLEDGE_MAP_def)
  have b: "(1::int) \<in> set [1, 2, 7, 8]" by simp
  have c: "mset [1, 1 :: int] = mset (dict_get (marked_lines p0) []) + replicate_mset 1 1"
    by (simp add: p0_def dict_get_def)
  have d: "mset [1, 7, 1 :: int] = mset (dict_get (marked_lines p0) []) + replicate_mset 1 1 + {#7#}"
    by (simp add: p0_def dict_get_def)
  from marks_by_multiplicity [OF a b c p0_divide] a b d p0_divide show ?thesis by simp
qed

section \<open>The divisor and the fields of the dictionary\<close>

text \<open>
  Rounding to a double is monotone in the magnitude, so a quotient that is smaller in
  magnitude never overflows where a larger one does not.
\<close>

lemma round_half_even_mono:
  assumes "x \<le> y"
  shows "round_half_even x \<le> round_half_even y"
proof (cases "\<lfloor>x\<rfloor> = \<lfloor>y\<rfloor>")
  case True
  with assms show ?thesis
    by (auto simp: round_half_even_def Let_def)
next
  case False
  from assms have "\<lfloor>x\<rfloor> \<le> \<lfloor>y\<rfloor>" by (rule floor_mono)
  with False have lt: "\<lfloor>x\<rfloor> + 1 \<le> \<lfloor>y\<rfloor>" by simp
  have "round_half_even x \<le> \<lfloor>x\<rfloor> + 1" by (simp add: round_half_even_def Let_def)
  also note lt
  also have "\<lfloor>y\<rfloor> \<le> round_half_even y" by (simp add: round_half_even_def Let_def)
  finally show ?thesis .
qed

lemma floor_log2_mono:
  assumes "0 < a" and "a \<le> b"
  shows "floor_log2 a \<le> floor_log2 b"
proof -
  from assms have b: "0 < b" by simp
  have "2 powi floor_log2 a \<le> a" using assms(1) by (rule floor_log2_bounds)
  also note assms(2)
  also have "b < 2 powi (floor_log2 b + 1)" using b by (rule floor_log2_bounds)
  finally have "floor_log2 a < floor_log2 b + 1" by (simp only: powi2_less_iff)
  then show ?thesis by simp
qed

lemma rounded_magnitude_mono:
  fixes a b :: rat
  assumes a: "0 < a" and ab: "a \<le> b"
  defines "e \<equiv> max (floor_log2 a - 52) (- 1074)"
    and "e' \<equiv> max (floor_log2 b - 52) (- 1074)"
  shows "of_int (round_half_even (a / 2 powi e)) * 2 powi e
       \<le> (of_int (round_half_even (b / 2 powi e')) * 2 powi e' :: rat)"
proof -
  from a ab have b: "0 < b" by simp
  have p: "(0::rat) < 2 powi k" for k by simp
  from floor_log2_mono [OF a ab] have ee: "e \<le> e'" by (simp add: e_def e'_def)
  show ?thesis
  proof (cases "e = e'")
    case True
    have "a / 2 powi e \<le> b / 2 powi e" using ab p [of e] by (simp add: divide_right_mono)
    then have "round_half_even (a / 2 powi e) \<le> round_half_even (b / 2 powi e)"
      by (rule round_half_even_mono)
    then have "(of_int (round_half_even (a / 2 powi e)) :: rat) \<le> of_int (round_half_even (b / 2 powi e))"
      by (simp only: of_int_le_iff)
    then show ?thesis unfolding True [symmetric] using p [of e]
      by (simp add: mult_right_mono)
  next
    case False
    with ee have lt: "e + 1 \<le> e'" by simp
    then have "- 1074 < e'" by (simp add: e_def)
    then have e'eq: "e' = floor_log2 b - 52" by (simp add: e'_def)
    have "floor_log2 a - 52 \<le> e" by (simp add: e_def)
    then have fa: "floor_log2 a + 1 \<le> e + 53" by simp
    \<comment> \<open>the smaller number rounds to at most \<open>2 ^ 53\<close> units\<close>
    have "a < 2 powi (floor_log2 a + 1)" using a by (rule floor_log2_bounds)
    also have "\<dots> \<le> 2 powi (e + 53)" using fa by (simp only: powi2_le_iff)
    also have "\<dots> = 2 powi e * 2 ^ 53" by (simp add: power_int_add)
    finally have "a / 2 powi e \<le> 2 ^ 53" using p [of e] by (simp add: pos_divide_le_eq mult.commute)
    then have "a / 2 powi e \<le> of_int (2 ^ 53)" by simp
    then have "round_half_even (a / 2 powi e) \<le> 2 ^ 53" by (rule round_half_even_le)
    then have "(of_int (round_half_even (a / 2 powi e)) :: rat) \<le> of_int (2 ^ 53)"
      by (simp only: of_int_le_iff)
    then have "of_int (round_half_even (a / 2 powi e)) * 2 powi e \<le> (2 ^ 53 * 2 powi e :: rat)"
      using p [of e] by (simp add: mult_right_mono)
    also have "(2 ^ 53 * 2 powi e :: rat) = 2 powi (e + 53)" by (simp add: power_int_add)
    also have "\<dots> \<le> 2 powi (e' + 52)" using lt by (simp only: powi2_le_iff)
    also have "\<dots> = (2 ^ 52 * 2 powi e' :: rat)" by (simp add: power_int_add)
    also have "\<dots> \<le> of_int (round_half_even (b / 2 powi e')) * 2 powi e'"
    proof -
      have "2 powi (e' + 52) \<le> b" using floor_log2_bounds(1) [OF b] by (simp add: e'eq)
      then have "2 powi e' * 2 ^ 52 \<le> b" by (simp add: power_int_add)
      then have "2 ^ 52 \<le> b / 2 powi e'" using p [of e'] by (simp add: pos_le_divide_eq mult.commute)
      then have "of_int (2 ^ 52) \<le> b / 2 powi e'" by simp
      then have "2 ^ 52 \<le> round_half_even (b / 2 powi e')" by (rule round_half_even_ge)
      then have "(of_int (2 ^ 52) :: rat) \<le> of_int (round_half_even (b / 2 powi e'))"
        by (simp only: of_int_le_iff)
      then show ?thesis using p [of e'] by (simp add: mult_right_mono)
    qed
    finally show ?thesis .
  qed
qed

lemma round_to_double_mono:
  assumes le: "\<bar>q\<bar> \<le> \<bar>q'\<bar>" and q': "round_to_double q' = Some v'"
  shows "\<exists>v. round_to_double q = Some v \<and> \<bar>v\<bar> \<le> \<bar>v'\<bar>"
proof (cases "q = 0")
  case True
  then show ?thesis by (simp add: round_to_double_def)
next
  case False
  with le have nz: "q' \<noteq> 0" by auto
  define m :: rat where "m = of_int (round_half_even (\<bar>q\<bar> / 2 powi max (floor_log2 \<bar>q\<bar> - 52) (- 1074)))
      * 2 powi max (floor_log2 \<bar>q\<bar> - 52) (- 1074)"
  define m' :: rat where "m' = of_int (round_half_even (\<bar>q'\<bar> / 2 powi max (floor_log2 \<bar>q'\<bar> - 52) (- 1074)))
      * 2 powi max (floor_log2 \<bar>q'\<bar> - 52) (- 1074)"
  have mm: "m \<le> m'" unfolding m_def m'_def
    using False le by (intro rounded_magnitude_mono) simp_all
  have m0: "0 \<le> m" unfolding m_def
    by (intro mult_nonneg_nonneg) (simp_all add: round_half_even_ge)
  have r': "round_to_double q' = (if 2 ^ 1024 \<le> m' then None else Some (sgn q' * m'))"
    using nz by (simp add: round_to_double_def Let_def m'_def del: power_numeral)
  have r: "round_to_double q = (if 2 ^ 1024 \<le> m then None else Some (sgn q * m))"
    using False by (simp add: round_to_double_def Let_def m_def del: power_numeral)
  from q' r' have small: "\<not> 2 ^ 1024 \<le> m'" and v': "v' = sgn q' * m'"
    by (auto split: if_splits)
  from small mm have "\<not> 2 ^ 1024 \<le> m" by simp
  with r have 1: "round_to_double q = Some (sgn q * m)" by simp
  have "\<bar>sgn q * m\<bar> = m" using False m0 by (simp add: abs_mult)
  moreover have "\<bar>v'\<bar> = m'" using nz m0 mm by (simp add: v' abs_mult)
  ultimately show ?thesis using 1 mm by simp
qed

lemma step_bonus_of_Inr_iff:
  "(\<exists>n. step_bonus_of tv tas = Inr n) \<longleftrightarrow>
   (\<exists>r w. round_to_double (of_int tv / of_int (max tas 1)) = Some r
        \<and> round_to_double (r * 30) = Some w)"
proof -
  have "max tas 1 \<noteq> 0" by simp
  then show ?thesis
    by (auto simp: step_bonus_of_def int_truediv_def float_mul_int_def py_round_def
        split: option.splits sum.splits pyfloat.splits)
qed

lemma step_bonus_of_divisor:
  assumes "step_bonus_of tv 1 = Inr n"
  shows "\<exists>m. step_bonus_of tv tas = Inr m"
proof -
  from assms have "\<exists>n. step_bonus_of tv 1 = Inr n" ..
  then obtain r w where r: "round_to_double (of_int tv) = Some r"
    and w: "round_to_double (r * 30) = Some w"
    unfolding step_bonus_of_Inr_iff by auto
  define d where "d = max tas 1"
  have d: "1 \<le> d" by (simp add: d_def)
  have "\<bar>of_int tv / of_int d :: rat\<bar> = of_int \<bar>tv\<bar> / of_int d"
    using d by simp
  also have "\<dots> \<le> of_int \<bar>tv\<bar>"
    using d by (simp add: divide_le_eq_1 mult_le_cancel_left1 pos_divide_le_eq)
  finally have "\<bar>of_int tv / of_int d :: rat\<bar> \<le> \<bar>of_int tv\<bar>" by simp
  from round_to_double_mono [OF this r]
  obtain r' where r': "round_to_double (of_int tv / of_int d) = Some r'" and le: "\<bar>r'\<bar> \<le> \<bar>r\<bar>"
    by blast
  from le have "\<bar>r' * 30\<bar> \<le> \<bar>r * 30\<bar>" by (simp add: abs_mult)
  from round_to_double_mono [OF this w]
  obtain w' where "round_to_double (r' * 30) = Some w'" by blast
  with r' show ?thesis unfolding step_bonus_of_Inr_iff d_def by blast
qed

lemma step_bonus_of_int64:
  assumes "- (2 ^ 63) \<le> tv" and "tv < 2 ^ 63"
  shows "\<exists>n. step_bonus_of tv tas = Inr n"
proof -
  from assms have "\<bar>tv\<bar> \<le> 2 ^ 63" by simp
  also have "(2::int) ^ 63 \<le> 2 ^ 1000" by (rule power_increasing) simp_all
  finally show ?thesis by (rule step_bonus_of_returns)
qed

text \<open>
  On a dictionary in which no key that is read holds \<^verbatim>\<open>None\<close> the function is
  \<open>calculate_skill_scores\<close> on the corresponding \<open>user_profile\<close>; otherwise it raises
  \<^verbatim>\<open>TypeError\<close>, unless the division has failed before.
\<close>

lemma get_val:
  assumes "f \<noteq> Some PyNone"
  shows "dict_get f (Val d) = Val (dict_get (strip f) d)"
  using assms by (simp add: dict_get_def strip_def split: option.splits pyobj.splits)

lemma get_none: "dict_get (Some PyNone) (Val d) = PyNone"
  by (simp add: dict_get_def)

lemma steps_viewed_strip: "dict_get (strip (d_total_steps_viewed D)) 0 = steps_viewed D"
  by (simp add: strip_def steps_viewed_def dict_get_def split: option.splits pyobj.splits)

lemma steps_viewed_as_profile:
  "dict_get (total_steps_viewed (as_profile D)) 0 = steps_viewed D"
  by (simp add: as_profile_def steps_viewed_strip)

lemma dict_steps_None:
  assumes "d_total_steps_viewed D = Some PyNone"
  shows "calculate_skill_scores_dict D tas = Inl TypeError"
  by (simp add: calculate_skill_scores_dict_def assms get_none)

lemma dict_step_error:
  assumes "d_total_steps_viewed D \<noteq> Some PyNone"
    and "step_bonus_of (steps_viewed D) tas = Inl e"
  shows "calculate_skill_scores_dict D tas = Inl e"
  using assms(2)
  by (simp add: calculate_skill_scores_dict_def get_val [OF assms(1)] steps_viewed_strip)

lemma dict_other_None:
  assumes t: "d_total_steps_viewed D \<noteq> Some PyNone"
    and sb: "step_bonus_of (steps_viewed D) tas = Inr sb"
    and n: "d_completed_runs D = Some PyNone \<or> d_question_topics D = Some PyNone
            \<or> d_marked_lines D = Some PyNone"
  shows "calculate_skill_scores_dict D tas = Inl TypeError"
proof (cases "d_completed_runs D = Some PyNone")
  case True
  with sb show ?thesis
    by (simp add: calculate_skill_scores_dict_def get_val [OF t] steps_viewed_strip get_none)
next
  case c: False
  show ?thesis
  proof (cases "d_question_topics D = Some PyNone")
    case True
    with sb show ?thesis
      by (simp add: calculate_skill_scores_dict_def get_val [OF t] get_val [OF c]
          steps_viewed_strip get_none)
  next
    case q: False
    with c n have "d_marked_lines D = Some PyNone" by simp
    with sb show ?thesis
      by (simp add: calculate_skill_scores_dict_def get_val [OF t] get_val [OF c]
          get_val [OF q] steps_viewed_strip get_none)
  qed
qed

lemma dict_documented:
  assumes "documented_types D"
  shows "calculate_skill_scores_dict D tas = calculate_skill_scores (as_profile D) tas"
proof -
  from assms have t: "d_total_steps_viewed D \<noteq> Some PyNone"
    and m: "d_marked_lines D \<noteq> Some PyNone"
    and q: "d_question_topics D \<noteq> Some PyNone"
    and c: "d_completed_runs D \<noteq> Some PyNone"
    by (simp_all add: documented_types_def)
  show ?thesis
  proof (cases "step_bonus_of (steps_viewed D) tas")
    case (Inl e)
    then have "step_bonus_of (dict_get (total_steps_viewed (as_profile D)) 0) tas = Inl e"
      by (simp only: steps_viewed_as_profile)
    from dict_step_error [OF t Inl] calculate_skill_scores_Inl [OF this]
    show ?thesis by simp
  next
    case (Inr sb)
    then show ?thesis
      by (simp add: calculate_skill_scores_dict_def calculate_skill_scores_def
          get_val [OF t] get_val [OF c] get_val [OF q] get_val [OF m]
          steps_viewed_strip as_profile_def)
  qed
qed

lemma dict_returns_iff:
  "(\<exists>scores. calculate_skill_scores_dict D tas = Inr scores) \<longleftrightarrow>
     documented_types D \<and> (\<exists>n. step_bonus_of (steps_viewed D) tas = Inr n)"
proof (cases "d_total_steps_viewed D = Some PyNone")
  case True
  then show ?thesis by (simp add: dict_steps_None documented_types_def)
next
  case t: False
  show ?thesis
  proof (cases "step_bonus_of (steps_viewed D) tas")
    case (Inl e)
    with dict_step_error [OF t Inl] show ?thesis by simp
  next
    case (Inr sb)
    show ?thesis
    proof (cases "documented_types D")
      case True
      from Inr have "step_bonus_of (dict_get (total_steps_viewed (as_profile D)) 0) tas = Inr sb"
        by (simp only: steps_viewed_as_profile)
      from calculate_skill_scores_Inr [OF this] dict_documented [OF True, of tas] True Inr
      show ?thesis by simp
    next
      case False
      with t have "d_completed_runs D = Some PyNone \<or> d_question_topics D = Some PyNone
            \<or> d_marked_lines D = Some PyNone"
        by (auto simp: documented_types_def)
      from dict_other_None [OF t Inr this] False show ?thesis by simp
    qed
  qed
qed

lemma dict_error:
  assumes "calculate_skill_scores_dict D tas = Inl e"
  shows "e = TypeError \<or> e = OverflowError"
proof (cases "d_total_steps_viewed D = Some PyNone")
  case True
  with assms show ?thesis by (simp add: dict_steps_None)
next
  case t: False
  show ?thesis
  proof (cases "step_bonus_of (steps_viewed D) tas")
    case (Inl e')
    from step_bonus_of_error [OF Inl] dict_step_error [OF t Inl] assms show ?thesis by simp
  next
    case (Inr sb)
    show ?thesis
    proof (cases "documented_types D")
      case True
      with Inr have "\<exists>scores. calculate_skill_scores_dict D tas = Inr scores"
        unfolding dict_returns_iff by blast
      with assms show ?thesis by auto
    next
      case False
      with t have "d_completed_runs D = Some PyNone \<or> d_question_topics D = Some PyNone
            \<or> d_marked_lines D = Some PyNone"
        by (auto simp: documented_types_def)
      from dict_other_None [OF t Inr this] assms show ?thesis by simp
    qed
  qed
qed

lemma dict_nonpos:
  assumes "tas \<le> 0"
  shows "calculate_skill_scores_dict D tas = calculate_skill_scores_dict D 1"
  unfolding calculate_skill_scores_dict_def step_bonus_of_nonpos [OF assms] by (rule refl)

lemma dict_keys:
  assumes "calculate_skill_scores_dict D tas = Inr scores"
  shows "map fst scores =
     [topic_divide, topic_pivot, topic_partition, topic_recursion, topic_complexity]"
proof -
  from assms have "\<exists>scores. calculate_skill_scores_dict D tas = Inr scores" ..
  then have "documented_types D" unfolding dict_returns_iff ..
  from dict_documented [OF this, of tas] assms
  have "calculate_skill_scores (as_profile D) tas = Inr scores" by simp
  then show ?thesis by (rule keys_of_scores)
qed

lemma with_defaults_get:
  "dict_get (d_total_steps_viewed (with_defaults D)) (Val 0)
     = dict_get (d_total_steps_viewed D) (Val 0)"
  "dict_get (d_completed_runs (with_defaults D)) (Val 0) = dict_get (d_completed_runs D) (Val 0)"
  "dict_get (d_question_topics (with_defaults D)) (Val [])
     = dict_get (d_question_topics D) (Val [])"
  "dict_get (d_marked_lines (with_defaults D)) (Val []) = dict_get (d_marked_lines D) (Val [])"
  by (simp_all add: with_defaults_def dict_get_def)

lemma with_defaults_eq:
  "calculate_skill_scores_dict (with_defaults D) tas = calculate_skill_scores_dict D tas"
  unfolding calculate_skill_scores_dict_def with_defaults_get by (rule refl)

lemma sb25: "step_bonus_of 25 1 = Inr 30"
  by code_simp

lemma d1_scores:
  "calculate_skill_scores_dict d1 1 =
     Inr [(topic_divide, 45), (topic_pivot, 55), (topic_partition, 55),
          (topic_recursion, 55), (topic_complexity, 80)]"
  by (simp add: calculate_skill_scores_dict_def d1_def dict_get_def sb25 KNOWLEDGE_MAP_def
      raw_score_def topic_defs)

text \<open>
  Claim C3: for every dictionary and every integer \<open>total_animation_steps\<close> the call never
  raises \<^verbatim>\<open>ZeroDivisionError\<close>. The divisor is \<^verbatim>\<open>max(total_animation_steps, 1)\<close>, so a zero or
  negative \<open>total_animation_steps\<close> gives exactly the result of \<open>1\<close>, and no value of
  \<open>total_animation_steps\<close> makes the call fail: when it returns a mapping for \<open>1\<close> it
  returns one for every integer. It returns a mapping whenever no key that is read holds
  \<^verbatim>\<open>None\<close> and \<open>total_steps_viewed\<close> is a 64-bit integer, which is what the \<^verbatim>\<open>Integer\<close>
  column of \<^verbatim>\<open>UserProfile\<close> stores.
\<close>

theorem skill_scores_total:
  "calculate_skill_scores_dict D tas \<noteq> Inl ZeroDivisionError
   \<and> (tas \<le> 0 \<longrightarrow> calculate_skill_scores_dict D tas = calculate_skill_scores_dict D 1)
   \<and> ((\<exists>scores. calculate_skill_scores_dict D 1 = Inr scores) \<longrightarrow>
        (\<exists>scores. calculate_skill_scores_dict D tas = Inr scores))
   \<and> (documented_types D \<and> - (2 ^ 63) \<le> steps_viewed D \<and> steps_viewed D < 2 ^ 63 \<longrightarrow>
        (\<exists>scores. calculate_skill_scores_dict D tas = Inr scores))"
proof (intro conjI impI)
  show "calculate_skill_scores_dict D tas \<noteq> Inl ZeroDivisionError"
    using dict_error [of D tas ZeroDivisionError] by auto
next
  assume "tas \<le> 0"
  then show "calculate_skill_scores_dict D tas = calculate_skill_scores_dict D 1"
    by (rule dict_nonpos)
next
  assume "\<exists>scores. calculate_skill_scores_dict D 1 = Inr scores"
  then obtain n where doc: "documented_types D" and n: "step_bonus_of (steps_viewed D) 1 = Inr n"
    unfolding dict_returns_iff by blast
  from step_bonus_of_divisor [OF n] doc
  show "\<exists>scores. calculate_skill_scores_dict D tas = Inr scores"
    unfolding dict_returns_iff by blast
next
  assume a: "documented_types D \<and> - (2 ^ 63) \<le> steps_viewed D \<and> steps_viewed D < 2 ^ 63"
  then have "\<exists>n. step_bonus_of (steps_viewed D) tas = Inr n"
    by (intro step_bonus_of_int64) simp_all
  with a show "\<exists>scores. calculate_skill_scores_dict D tas = Inr scores"
    unfolding dict_returns_iff by blast
qed

theorem skill_scores_total_witness:
  "(0::int) \<le> 0
   \<and> documented_types d1 \<and> - (2 ^ 63) \<le> steps_viewed d1 \<and> steps_viewed d1 < 2 ^ 63
   \<and> calculate_skill_scores_dict d1 1 =
       Inr [(topic_divide, 45), (topic_pivot, 55), (topic_partition, 55),
            (topic_recursion, 55), (topic_complexity, 80)]
   \<and> calculate_skill_scores_dict d1 0 =
       Inr [(topic_divide, 45), (topic_pivot, 55), (topic_partition, 55),
            (topic_recursion, 55), (topic_complexity, 80)]
   \<and> calculate_skill_scores_dict d1 0 \<noteq> Inl ZeroDivisionError"
proof -
  have doc: "documented_types d1" by (simp add: documented_types_def d1_def)
  have sv: "steps_viewed d1 = 25" by (simp add: steps_viewed_def d1_def)
  have z: "(0::int) \<le> 0" by simp
  from skill_scores_total [of d1 0] z
  have "calculate_skill_scores_dict d1 0 = calculate_skill_scores_dict d1 1"
    and "calculate_skill_scores_dict d1 0 \<noteq> Inl ZeroDivisionError"
    by blast+
  with d1_scores doc z show ?thesis by (simp add: sv)
qed

text \<open>
  Claim C7: a key that is missing counts as \<open>0\<close> or as the empty list: every dictionary
  gives the result of the dictionary with the defaults written out. Whenever the call
  returns, the keys of the mapping are exactly the five topics of \<open>KNOWLEDGE_MAP\<close>, in that
  order. It returns whenever no key that is read holds \<^verbatim>\<open>None\<close> and the step bonus can be
  computed, in particular whenever \<open>total_steps_viewed\<close> is a 64-bit integer. A key that is
  present with the value \<^verbatim>\<open>None\<close> is not defaulted: for
  \<^verbatim>\<open>{'total_steps_viewed': 0, 'marked_lines': None}\<close> the call raises \<^verbatim>\<open>TypeError\<close>, as the
  example after the theorem shows.
\<close>

theorem skill_scores_keys:
  "calculate_skill_scores_dict D tas = calculate_skill_scores_dict (with_defaults D) tas
   \<and> (\<forall>scores. calculate_skill_scores_dict D tas = Inr scores \<longrightarrow>
        map fst scores =
          [topic_divide, topic_pivot, topic_partition, topic_recursion, topic_complexity])
   \<and> (documented_types D \<and> (\<exists>n. step_bonus_of (steps_viewed D) tas = Inr n) \<longrightarrow>
        (\<exists>scores. calculate_skill_scores_dict D tas = Inr scores))
   \<and> (documented_types D \<and> - (2 ^ 63) \<le> steps_viewed D \<and> steps_viewed D < 2 ^ 63 \<longrightarrow>
        (\<exists>scores. calculate_skill_scores_dict D tas = Inr scores))"
proof (intro conjI impI allI)
  show "calculate_skill_scores_dict D tas = calculate_skill_scores_dict (with_defaults D) tas"
    by (rule with_defaults_eq [symmetric])
next
  fix scores
  assume "calculate_skill_scores_dict D tas = Inr scores"
  then show "map fst scores =
      [topic_divide, topic_pivot, topic_partition, topic_recursion, topic_complexity]"
    by (rule dict_keys)
next
  assume "documented_types D \<and> (\<exists>n. step_bonus_of (steps_viewed D) tas = Inr n)"
  then show "\<exists>scores. calculate_skill_scores_dict D tas = Inr scores"
    unfolding dict_returns_iff .
next
  assume a: "documented_types D \<and> - (2 ^ 63) \<le> steps_viewed D \<and> steps_viewed D < 2 ^ 63"
  then have "\<exists>n. step_bonus_of (steps_viewed D) tas = Inr n"
    by (intro step_bonus_of_int64) simp_all
  with a show "\<exists>scores. calculate_skill_scores_dict D tas = Inr scores"
    unfolding dict_returns_iff by blast
qed

theorem skill_scores_keys_witness:
  "documented_types d_empty \<and> - (2 ^ 63) \<le> steps_viewed d_empty \<and> steps_viewed d_empty < 2 ^ 63
   \<and> step_bonus_of (steps_viewed d_empty) 50 = Inr 0
   \<and> calculate_skill_scores_dict d_empty 50 =
       Inr [(topic_divide, 0), (topic_pivot, 0), (topic_partition, 0),
            (topic_recursion, 0), (topic_complexity, 0)]
   \<and> calculate_skill_scores_dict (with_defaults d_empty) 50 =
       Inr [(topic_divide, 0), (topic_pivot, 0), (topic_partition, 0),
            (topic_recursion, 0), (topic_complexity, 0)]
   \<and> map fst [(topic_divide, 0::int), (topic_pivot, 0), (topic_partition, 0),
            (topic_recursion, 0), (topic_complexity, 0)] =
       [topic_divide, topic_pivot, topic_partition, topic_recursion, topic_complexity]"
proof -
  have doc: "documented_types d_empty" by (simp add: documented_types_def d_empty_def)
  have sv: "steps_viewed d_empty = 0" by (simp add: steps_viewed_def d_empty_def)
  have sb: "step_bonus_of (steps_viewed d_empty) 50 = Inr 0"
    by (simp add: sv step_bonus_of_zero)
  have e: "calculate_skill_scores_dict d_empty 50 =
       Inr [(topic_divide, 0), (topic_pivot, 0), (topic_partition, 0),
            (topic_recursion, 0), (topic_complexity, 0)]"
    by (simp add: calculate_skill_scores_dict_def d_empty_def dict_get_def step_bonus_of_zero
        KNOWLEDGE_MAP_def raw_score_def topic_defs)
  from skill_scores_keys [of d_empty 50]
  have "calculate_skill_scores_dict d_empty 50 = calculate_skill_scores_dict (with_defaults d_empty) 50"
    by blast
  with e doc sb show ?thesis by (simp add: sv)
qed

theorem skill_scores_keys_counterexample:
  "calculate_skill_scores_dict d_null_marks 50 = Inl TypeError"
  by (simp add: calculate_skill_scores_dict_def d_null_marks_def dict_get_def step_bonus_of_zero)

section \<open>The question bonus\<close>



lemma complexity_in_map: "(topic_complexity, []) \<in> set KNOWLEDGE_MAP"
  by (simp add: KNOWLEDGE_MAP_def)









lemma complexity_score:
  "skill_score_at P tas topic_complexity =
     (case step_bonus_of (dict_get (total_steps_viewed P) 0) tas of
        Inl e \<Rightarrow> Inl e
      | Inr sb \<Rightarrow>
          Inr (max 0 (min 100
            ((if 0 < dict_get (total_steps_viewed P) 0 then 10 else 0) + sb
               + min 30 (dict_get (completed_runs P) 0 * 15)
               + (if topic_complexity \<in> set (dict_get (question_topics P) []) then 15 else 0)
               + 10 * int (count_list (dict_get (question_topics P) []) topic_complexity)))))"
proof (cases "step_bonus_of (dict_get (total_steps_viewed P) 0) tas")
  case (Inl e)
  then show ?thesis by (simp add: skill_score_at_topic [OF complexity_in_map])
next
  case (Inr sb)
  then show ?thesis by (simp add: skill_score_at_topic [OF complexity_in_map] raw_score_eq)
qed

lemma other_topics_set:
  assumes T: "(T, ls) \<in> set KNOWLEDGE_MAP" and nc: "T \<noteq> topic_complexity"
    and s: "set qts' = set (dict_get (question_topics P) [])"
  shows "skill_score_at (P\<lparr>question_topics := Some qts'\<rparr>) tas T = skill_score_at P tas T"
proof (cases "step_bonus_of (dict_get (total_steps_viewed P) 0) tas")
  case (Inl e)
  then show ?thesis by (simp add: skill_score_at_topic [OF T])
next
  case (Inr sb)
  have "dict_get (question_topics (P\<lparr>question_topics := Some qts'\<rparr>)) [] = qts'"
    by (simp add: dict_get_def)
  with Inr nc s show ?thesis by (simp add: skill_score_at_topic [OF T] raw_score_eq)
qed

text \<open>
  Claim C5: \<open>topic_complexity\<close> is the one topic of \<open>KNOWLEDGE_MAP\<close> whose line set is empty.
  Its score is the clamped sum of the base score, the step bonus, the completion bonus,
  \<open>15\<close> if its name occurs in \<open>question_topics\<close>, and \<open>10\<close> times the number of occurrences of
  its name there; nothing is deducted for marks. No other topic has a bonus per
  occurrence: its score is the same for any two \<open>question_topics\<close> lists with the same
  set of elements.
\<close>

theorem complexity_question_bonus:
  "(topic_complexity, []) \<in> set KNOWLEDGE_MAP
   \<and> (\<forall>(T, ls) \<in> set KNOWLEDGE_MAP. (ls = []) = (T = topic_complexity))
   \<and> skill_score_at P tas topic_complexity =
       (case step_bonus_of (dict_get (total_steps_viewed P) 0) tas of
          Inl e \<Rightarrow> Inl e
        | Inr sb \<Rightarrow>
            Inr (max 0 (min 100
              ((if 0 < dict_get (total_steps_viewed P) 0 then 10 else 0) + sb
                 + min 30 (dict_get (completed_runs P) 0 * 15)
                 + (if topic_complexity \<in> set (dict_get (question_topics P) []) then 15 else 0)
                 + 10 * int (count_list (dict_get (question_topics P) []) topic_complexity)))))
   \<and> (\<forall>(T, ls) \<in> set KNOWLEDGE_MAP. T \<noteq> topic_complexity \<longrightarrow>
         set qts' = set (dict_get (question_topics P) []) \<longrightarrow>
         skill_score_at (P\<lparr>question_topics := Some qts'\<rparr>) tas T = skill_score_at P tas T)"
proof (intro conjI)
  show "(topic_complexity, []) \<in> set KNOWLEDGE_MAP" by (rule complexity_in_map)
  show "\<forall>(T, ls) \<in> set KNOWLEDGE_MAP. (ls = []) = (T = topic_complexity)"
    using complexity_lines by blast
  show "skill_score_at P tas topic_complexity =
       (case step_bonus_of (dict_get (total_steps_viewed P) 0) tas of
          Inl e \<Rightarrow> Inl e
        | Inr sb \<Rightarrow>
            Inr (max 0 (min 100
              ((if 0 < dict_get (total_steps_viewed P) 0 then 10 else 0) + sb
                 + min 30 (dict_get (completed_runs P) 0 * 15)
                 + (if topic_complexity \<in> set (dict_get (question_topics P) []) then 15 else 0)
                 + 10 * int (count_list (dict_get (question_topics P) []) topic_complexity)))))"
    by (rule complexity_score)
  show "\<forall>(T, ls) \<in> set KNOWLEDGE_MAP. T \<noteq> topic_complexity \<longrightarrow>
         set qts' = set (dict_get (question_topics P) []) \<longrightarrow>
         skill_score_at (P\<lparr>question_topics := Some qts'\<rparr>) tas T = skill_score_at P tas T"
    using other_topics_set by blast
qed

theorem complexity_question_bonus_witness:
  "(topic_divide, [1, 2, 7, 8]) \<in> set KNOWLEDGE_MAP \<and> topic_divide \<noteq> topic_complexity
   \<and> set [topic_complexity, topic_complexity] = set (dict_get (question_topics p0) [])
   \<and> skill_score_at (p0\<lparr>question_topics := Some [topic_complexity, topic_complexity]\<rparr>) 50 topic_divide
       = skill_score_at p0 50 topic_divide
   \<and> skill_score_at p0 50 topic_complexity = Inr 55"
proof -
  note th = complexity_question_bonus [of p0 50 "[topic_complexity, topic_complexity]"]
  have a: "(topic_divide, [1, 2, 7, 8]) \<in> set KNOWLEDGE_MAP" by (simp add: KNOWLEDGE_MAP_def)
  have b: "topic_divide \<noteq> topic_complexity" by (simp add: topic_defs)
  have c: "set [topic_complexity, topic_complexity] = set (dict_get (question_topics p0) [])"
    by (simp add: p0_def dict_get_def)
  from th have "\<forall>(T, ls) \<in> set KNOWLEDGE_MAP. T \<noteq> topic_complexity \<longrightarrow>
         set [topic_complexity, topic_complexity] = set (dict_get (question_topics p0) []) \<longrightarrow>
         skill_score_at (p0\<lparr>question_topics := Some [topic_complexity, topic_complexity]\<rparr>) 50 T
           = skill_score_at p0 50 T"
    by (elim conjE)
  from bspec [OF this a] b c
  have d: "skill_score_at (p0\<lparr>question_topics := Some [topic_complexity, topic_complexity]\<rparr>) 50 topic_divide
       = skill_score_at p0 50 topic_divide"
    by simp
  have s: "step_bonus_of (dict_get (total_steps_viewed p0) 0) 50 = Inr 0"
    by (simp add: p0_def dict_get_def step_bonus_of_zero)
  from th have "skill_score_at p0 50 topic_complexity =
       (case step_bonus_of (dict_get (total_steps_viewed p0) 0) 50 of
          Inl e \<Rightarrow> Inl e
        | Inr sb \<Rightarrow>
            Inr (max 0 (min 100
              ((if 0 < dict_get (total_steps_viewed p0) 0 then 10 else 0) + sb
                 + min 30 (dict_get (completed_runs p0) 0 * 15)
                 + (if topic_complexity \<in> set (dict_get (question_topics p0) []) then 15 else 0)
                 + 10 * int (count_list (dict_get (question_topics p0) []) topic_complexity)))))"
    by (elim conjE)
  then have e: "skill_score_at p0 50 topic_complexity = Inr 55"
    unfolding s by (simp add: p0_def dict_get_def)
  show ?thesis by (rule conjI a b c d e)+
qed

section \<open>The claims about the recommender\<close>

lemma make_recommendation_fields:
  "knowledge (make_recommendation (name, sc)) = name"
  "score (make_recommendation (name, sc)) = sc"
  "advice (make_recommendation (name, sc)) = dict_get (map_of ADVICE_MAP name) []"
  by (simp_all add: make_recommendation_def Let_def split: option.splits)

lemma make_recommendation_tag:
  "70 \<le> sc \<Longrightarrow> tag (make_recommendation (name, sc)) = tag_good"
  "70 \<le> sc \<Longrightarrow> tag_class (make_recommendation (name, sc)) = class_easy"
  "40 \<le> sc \<Longrightarrow> sc < 70 \<Longrightarrow> tag (make_recommendation (name, sc)) = tag_medium"
  "40 \<le> sc \<Longrightarrow> sc < 70 \<Longrightarrow> tag_class (make_recommendation (name, sc)) = class_medium"
  "sc < 40 \<Longrightarrow> tag (make_recommendation (name, sc)) = tag_focus"
  "sc < 40 \<Longrightarrow> tag_class (make_recommendation (name, sc)) = class_hard"
  by (simp_all add: make_recommendation_def Let_def split: option.splits)

lemma make_recommendation_next:
  "map_of KNOWLEDGE_GRAPH_RESOURCES name = None \<Longrightarrow>
     next_topic (make_recommendation (name, sc)) = None
     \<and> next_difficulty (make_recommendation (name, sc)) = None
     \<and> next_tip (make_recommendation (name, sc)) = None"
  "map_of KNOWLEDGE_GRAPH_RESOURCES name = Some res \<Longrightarrow>
     next_topic (make_recommendation (name, sc)) = Some (next res)
     \<and> next_difficulty (make_recommendation (name, sc)) = Some (difficulty res)
     \<and> next_tip (make_recommendation (name, sc)) = Some (tip res)"
  by (simp_all add: make_recommendation_def Let_def)

lemma recommendation_items:
  "map (\<lambda>r. (knowledge r, score r)) (generate_recommendations skill_scores top_n)
     = slice_to (sort_key snd skill_scores) top_n"
proof -
  have "(\<lambda>r. (knowledge r, score r)) \<circ> make_recommendation = id"
    by (auto simp: fun_eq_iff make_recommendation_fields)
  then show ?thesis
    by (simp add: generate_recommendations_def)
qed

lemma recommendation_of_item:
  assumes "r \<in> set (generate_recommendations skill_scores top_n)"
  shows "r = make_recommendation (knowledge r, score r)
     \<and> (knowledge r, score r) \<in> set skill_scores"
proof -
  from assms obtain item where item: "item \<in> set (slice_to (sort_key snd skill_scores) top_n)"
    and r: "r = make_recommendation item"
    by (auto simp: generate_recommendations_def)
  obtain name sc where ns: "item = (name, sc)" by (cases item)
  from item have "item \<in> set (sort_key snd skill_scores)"
    by (auto simp: slice_to_def dest: in_set_takeD split: if_splits)
  then have "item \<in> set skill_scores" by simp
  with r ns show ?thesis by (simp add: make_recommendation_fields)
qed

text \<open>
  Claim C6: for a limit \<open>top_n\<close> that is not negative, the records of
  \<open>generate_recommendations\<close> are, by name and score, the first \<open>top_n\<close> items of the list
  that holds the items of the mapping in ascending order of score, with the items of
  equal score in the order of the mapping: the stable sort, which the three properties of
  \<open>sorted_scores\<close> determine. Every record is labelled by its score: \<open>tag_good\<close> from \<open>70\<close>,
  \<open>tag_medium\<close> from \<open>40\<close> to \<open>69\<close> and \<open>tag_focus\<close> below \<open>40\<close>. On the scores
  \<open>A: 80\<close>, \<open>B: 30\<close>, \<open>C: 55\<close> with the default limit \<open>5\<close> the order is \<open>B\<close>, \<open>C\<close>, \<open>A\<close> and the
  labels are \<open>tag_focus\<close>, \<open>tag_medium\<close>, \<open>tag_good\<close>.
\<close>

theorem recommendations_order:
  assumes "0 \<le> top_n"
  shows "\<exists>sorted_scores.
      mset sorted_scores = mset skill_scores
    \<and> sorted (map snd sorted_scores)
    \<and> (\<forall>k. filter (\<lambda>x. snd x = k) sorted_scores = filter (\<lambda>x. snd x = k) skill_scores)
    \<and> map (\<lambda>r. (knowledge r, score r)) (generate_recommendations skill_scores top_n)
        = take (nat top_n) sorted_scores
    \<and> (\<forall>r \<in> set (generate_recommendations skill_scores top_n).
          (70 \<le> score r \<longrightarrow> tag r = tag_good \<and> tag_class r = class_easy)
        \<and> (40 \<le> score r \<and> score r < 70 \<longrightarrow> tag r = tag_medium \<and> tag_class r = class_medium)
        \<and> (score r < 40 \<longrightarrow> tag r = tag_focus \<and> tag_class r = class_hard))
    \<and> map (\<lambda>r. (knowledge r, score r, tag r))
          (generate_recommendations [(A, 80), (B, 30), (C, 55)] default_top_n)
        = [(B, 30, tag_focus), (C, 55, tag_medium), (A, 80, tag_good)]"
proof (intro exI [of _ "sort_key snd skill_scores"] conjI allI ballI)
  show "mset (sort_key snd skill_scores) = mset skill_scores" by simp
  show "sorted (map snd (sort_key snd skill_scores))" by (rule sorted_sort_key)
  show "filter (\<lambda>x. snd x = k) (sort_key snd skill_scores) = filter (\<lambda>x. snd x = k) skill_scores"
    for k by (rule sort_key_stable)
  show "map (\<lambda>r. (knowledge r, score r)) (generate_recommendations skill_scores top_n)
        = take (nat top_n) (sort_key snd skill_scores)"
    using assms by (simp add: recommendation_items slice_to_def)
next
  fix r assume r: "r \<in> set (generate_recommendations skill_scores top_n)"
  from recommendation_of_item [OF r]
  have eq: "r = make_recommendation (knowledge r, score r)" ..
  show "70 \<le> score r \<longrightarrow> tag r = tag_good \<and> tag_class r = class_easy"
    using make_recommendation_tag(1,2) [of "score r" "knowledge r"] eq by auto
  show "40 \<le> score r \<and> score r < 70 \<longrightarrow> tag r = tag_medium \<and> tag_class r = class_medium"
    using make_recommendation_tag(3,4) [of "score r" "knowledge r"] eq by auto
  show "score r < 40 \<longrightarrow> tag r = tag_focus \<and> tag_class r = class_hard"
    using make_recommendation_tag(5,6) [of "score r" "knowledge r"] eq by auto
next
  show "map (\<lambda>r. (knowledge r, score r, tag r))
          (generate_recommendations [(A, 80), (B, 30), (C, 55)] default_top_n)
        = [(B, 30, tag_focus), (C, 55, tag_medium), (A, 80, tag_good)]"
    by (simp add: generate_recommendations_def default_top_n_def slice_to_def
        make_recommendation_fields make_recommendation_tag)
qed

theorem recommendations_order_witness:
  "(0::int) \<le> 2
   \<and> (\<exists>sorted_scores.
         map (\<lambda>r. (knowledge r, score r))
           (generate_recommendations [([65], 80), ([66], 30), ([67], 55), ([68], 30)] 2)
         = take (nat 2) sorted_scores)
   \<and> map (\<lambda>r. (knowledge r, score r, tag r, tag_class r))
        (generate_recommendations [([65], 80), ([66], 30), ([67], 55), ([68], 30)] 2)
      = [([66], 30, tag_focus, class_hard), ([68], 30, tag_focus, class_hard)]"
proof -
  have z: "(0::int) \<le> 2" by simp
  from recommendations_order [where top_n = 2 and A = "[65]" and B = "[66]" and C = "[67]"
      and skill_scores = "[([65], 80), ([66], 30), ([67], 55), ([68], 30)]", OF z]
  obtain sorted_scores where
    "map (\<lambda>r. (knowledge r, score r))
        (generate_recommendations [([65], 80), ([66], 30), ([67], 55), ([68], 30)] 2)
      = take (nat 2) sorted_scores"
    by (elim exE conjE) (rule that)
  then have e: "\<exists>sorted_scores.
         map (\<lambda>r. (knowledge r, score r))
           (generate_recommendations [([65], 80), ([66], 30), ([67], 55), ([68], 30)] 2)
         = take (nat 2) sorted_scores" ..
  have v: "map (\<lambda>r. (knowledge r, score r, tag r, tag_class r))
        (generate_recommendations [([65], 80), ([66], 30), ([67], 55), ([68], 30)] 2)
      = [([66], 30, tag_focus, class_hard), ([68], 30, tag_focus, class_hard)]"
    by (simp add: generate_recommendations_def slice_to_def
        make_recommendation_fields make_recommendation_tag)
  show ?thesis by (rule conjI z e v)+
qed

text \<open>
  Claim C10: the empty mapping gives the empty list; for a limit that is not negative
  there is one record for each of the first \<open>top_n\<close> items, whatever their names; a record
  carries the name and score of an item of the mapping; its advice is the empty string
  when the name is not in \<open>ADVICE_MAP\<close>, and it has no \<open>next_topic\<close>, \<open>next_difficulty\<close> or
  \<open>next_tip\<close> when the name is not in \<open>KNOWLEDGE_GRAPH_RESOURCES\<close>. The function has no
  failing branch: the only subscript, \<^verbatim>\<open>KNOWLEDGE_GRAPH_RESOURCES[name]\<close>, is guarded by
  \<^verbatim>\<open>name in KNOWLEDGE_GRAPH_RESOURCES\<close>.
\<close>

theorem recommendations_total:
  "generate_recommendations [] top_n = []
   \<and> (0 \<le> top_n \<longrightarrow>
        length (generate_recommendations skill_scores top_n) = min (nat top_n) (length skill_scores))
   \<and> (\<forall>r \<in> set (generate_recommendations skill_scores top_n).
         (knowledge r, score r) \<in> set skill_scores
       \<and> (map_of ADVICE_MAP (knowledge r) = None \<longrightarrow> advice r = [])
       \<and> (map_of KNOWLEDGE_GRAPH_RESOURCES (knowledge r) = None \<longrightarrow>
            next_topic r = None \<and> next_difficulty r = None \<and> next_tip r = None))"
proof (intro conjI impI ballI)
  show "generate_recommendations [] top_n = []"
    by (simp add: generate_recommendations_def slice_to_def)
next
  assume "0 \<le> top_n"
  then show "length (generate_recommendations skill_scores top_n)
      = min (nat top_n) (length skill_scores)"
    by (simp add: generate_recommendations_def slice_to_def min.commute)
next
  fix r assume r: "r \<in> set (generate_recommendations skill_scores top_n)"
  from recommendation_of_item [OF r]
  have eq: "r = make_recommendation (knowledge r, score r)"
    and mem: "(knowledge r, score r) \<in> set skill_scores"
    by simp_all
  show "(knowledge r, score r) \<in> set skill_scores" by (rule mem)
  {
    assume "map_of ADVICE_MAP (knowledge r) = None"
    with make_recommendation_fields(3) [of "knowledge r" "score r"] eq
    show "advice r = []" by (simp add: dict_get_def)
  }
  {
    assume n: "map_of KNOWLEDGE_GRAPH_RESOURCES (knowledge r) = None"
    from make_recommendation_next(1) [OF n, of "score r"] eq
    show "next_topic r = None" "next_difficulty r = None" "next_tip r = None" by simp_all
  }
qed

theorem recommendations_total_witness:
  "(0::int) \<le> 5
   \<and> map_of ADVICE_MAP [65] = None \<and> map_of KNOWLEDGE_GRAPH_RESOURCES [65] = None
   \<and> generate_recommendations [([65], 80)] 5 =
        [\<lparr>knowledge = [65], score = 80, tag = tag_good, tag_class = class_easy, advice = [],
          next_topic = None, next_difficulty = None, next_tip = None\<rparr>]
   \<and> length (generate_recommendations [([65], 80)] 5)
       = min (nat 5) (length [([65 :: nat], 80 :: int)])"
proof -
  have z: "(0::int) \<le> 5" by simp
  have a: "map_of ADVICE_MAP [65] = None" by (simp add: ADVICE_MAP_def topic_defs)
  have k: "map_of KNOWLEDGE_GRAPH_RESOURCES [65] = None"
    by (simp add: KNOWLEDGE_GRAPH_RESOURCES_def topic_defs)
  have g: "generate_recommendations [([65], 80)] 5 =
        [\<lparr>knowledge = [65], score = 80, tag = tag_good, tag_class = class_easy, advice = [],
          next_topic = None, next_difficulty = None, next_tip = None\<rparr>]"
    by (simp add: generate_recommendations_def slice_to_def make_recommendation_def a k dict_get_def)
  from recommendations_total [of 5 "[([65], 80)]"]
  have "0 \<le> (5::int) \<longrightarrow> length (generate_recommendations [([65], 80)] 5)
       = min (nat 5) (length [([65 :: nat], 80 :: int)])"
    by (elim conjE)
  from this z
  have l: "length (generate_recommendations [([65], 80)] 5)
       = min (nat 5) (length [([65 :: nat], 80 :: int)])"
    by (rule mp)
  show ?thesis by (rule conjI z a k g l)+
qed

section \<open>The claim about the chat matcher\<close>

lemma best_entry_scan:
  "(best_entry es q bs best = best \<and> (\<forall>e \<in> set es. keyword_overlap e q \<le> bs))
   \<or> (\<exists>i < length es. best_entry es q bs best = Some (es ! i)
         \<and> bs < keyword_overlap (es ! i) q
         \<and> (\<forall>j < length es. keyword_overlap (es ! j) q \<le> keyword_overlap (es ! i) q)
         \<and> (\<forall>j < i. keyword_overlap (es ! j) q < keyword_overlap (es ! i) q))"
proof (induction es arbitrary: bs best)
  case Nil
  then show ?case by simp
next
  case (Cons e es)
  let ?sc = "keyword_overlap e q"
  show ?case
  proof (cases "bs < ?sc")
    case True
    then have step: "best_entry (e # es) q bs best = best_entry es q ?sc (Some e)"
      by (simp add: Let_def)
    from Cons.IH [of ?sc "Some e"] show ?thesis
    proof (elim disjE conjE exE)
      assume r: "best_entry es q ?sc (Some e) = Some e"
        and le: "\<forall>e' \<in> set es. keyword_overlap e' q \<le> ?sc"
      have "0 < length (e # es) \<and> best_entry (e # es) q bs best = Some ((e # es) ! 0)
         \<and> bs < keyword_overlap ((e # es) ! 0) q
         \<and> (\<forall>j < length (e # es). keyword_overlap ((e # es) ! j) q \<le> keyword_overlap ((e # es) ! 0) q)
         \<and> (\<forall>j < 0. keyword_overlap ((e # es) ! j) q < keyword_overlap ((e # es) ! 0) q)"
        using r le True step by (auto simp: nth_Cons split: nat.splits)
      then show ?thesis by blast
    next
      fix i
      assume i: "i < length es"
        and r: "best_entry es q ?sc (Some e) = Some (es ! i)"
        and gt: "?sc < keyword_overlap (es ! i) q"
        and mx: "\<forall>j < length es. keyword_overlap (es ! j) q \<le> keyword_overlap (es ! i) q"
        and fst: "\<forall>j < i. keyword_overlap (es ! j) q < keyword_overlap (es ! i) q"
      have "Suc i < length (e # es) \<and> best_entry (e # es) q bs best = Some ((e # es) ! Suc i)
         \<and> bs < keyword_overlap ((e # es) ! Suc i) q
         \<and> (\<forall>j < length (e # es). keyword_overlap ((e # es) ! j) q \<le> keyword_overlap ((e # es) ! Suc i) q)
         \<and> (\<forall>j < Suc i. keyword_overlap ((e # es) ! j) q < keyword_overlap ((e # es) ! Suc i) q)"
        using i r gt mx fst True step by (auto simp: nth_Cons less_Suc_eq_0_disj split: nat.splits)
      then show ?thesis by blast
    qed
  next
    case False
    then have step: "best_entry (e # es) q bs best = best_entry es q bs best"
      by (simp add: Let_def)
    from Cons.IH [of bs best] show ?thesis
    proof (elim disjE conjE exE)
      assume r: "best_entry es q bs best = best"
        and le: "\<forall>e' \<in> set es. keyword_overlap e' q \<le> bs"
      with False step show ?thesis by auto
    next
      fix i
      assume i: "i < length es"
        and r: "best_entry es q bs best = Some (es ! i)"
        and gt: "bs < keyword_overlap (es ! i) q"
        and mx: "\<forall>j < length es. keyword_overlap (es ! j) q \<le> keyword_overlap (es ! i) q"
        and fst: "\<forall>j < i. keyword_overlap (es ! j) q < keyword_overlap (es ! i) q"
      have "Suc i < length (e # es) \<and> best_entry (e # es) q bs best = Some ((e # es) ! Suc i)
         \<and> bs < keyword_overlap ((e # es) ! Suc i) q
         \<and> (\<forall>j < length (e # es). keyword_overlap ((e # es) ! j) q \<le> keyword_overlap ((e # es) ! Suc i) q)
         \<and> (\<forall>j < Suc i. keyword_overlap ((e # es) ! j) q < keyword_overlap ((e # es) ! Suc i) q)"
        using i r gt mx fst False step by (auto simp: nth_Cons less_Suc_eq_0_disj split: nat.splits)
      then show ?thesis by blast
    qed
  qed
qed

lemma kb_example_overlap:
  "keyword_overlap (kb_example ! 0) [98, 99] = 1"
  "keyword_overlap (kb_example ! 1) [98, 99] = 2"
  "keyword_overlap (kb_example ! 2) [98, 99] = 2"
  "\<forall>e \<in> set kb_example. keyword_overlap e [122] = 0"
  by (simp_all add: kb_example_def keyword_overlap_def)

text \<open>
  Claim C8: when no entry of the knowledge base has a keyword that occurs in the
  question, \<open>match_answer\<close> returns the fallback answer with the empty topic. Otherwise it
  returns the answer and topic of the entry at an index \<open>i\<close> whose overlap is the highest
  of all entries and strictly higher than that of every entry before it: the first entry
  that reaches the maximum.
\<close>

theorem match_answer_first_maximum:
  "((\<forall>e \<in> set kb. keyword_overlap e q = 0) \<longrightarrow> match_answer kb fb q = (fb, []))
   \<and> ((\<exists>e \<in> set kb. 0 < keyword_overlap e q) \<longrightarrow>
        (\<exists>i < length kb. match_answer kb fb q = (qa_answer (kb ! i), qa_topic (kb ! i))
           \<and> (\<forall>j < length kb. keyword_overlap (kb ! j) q \<le> keyword_overlap (kb ! i) q)
           \<and> (\<forall>j < i. keyword_overlap (kb ! j) q < keyword_overlap (kb ! i) q)))"
proof (intro conjI impI)
  assume none: "\<forall>e \<in> set kb. keyword_overlap e q = 0"
  from best_entry_scan [of kb q 0 None] have "best_entry kb q 0 None = None"
  proof (elim disjE conjE exE)
    fix i assume "i < length kb" and "0 < keyword_overlap (kb ! i) q"
    with none show ?thesis by (auto dest: nth_mem)
  qed
  then show "match_answer kb fb q = (fb, [])" by (simp add: match_answer_def)
next
  assume some: "\<exists>e \<in> set kb. 0 < keyword_overlap e q"
  from best_entry_scan [of kb q 0 None]
  show "\<exists>i < length kb. match_answer kb fb q = (qa_answer (kb ! i), qa_topic (kb ! i))
           \<and> (\<forall>j < length kb. keyword_overlap (kb ! j) q \<le> keyword_overlap (kb ! i) q)
           \<and> (\<forall>j < i. keyword_overlap (kb ! j) q < keyword_overlap (kb ! i) q)"
  proof (elim disjE conjE exE)
    assume "\<forall>e \<in> set kb. keyword_overlap e q \<le> 0"
    with some show ?thesis by auto
  next
    fix i
    assume i: "i < length kb" and r: "best_entry kb q 0 None = Some (kb ! i)"
      and mx: "\<forall>j < length kb. keyword_overlap (kb ! j) q \<le> keyword_overlap (kb ! i) q"
      and fst: "\<forall>j < i. keyword_overlap (kb ! j) q < keyword_overlap (kb ! i) q"
    from r have "match_answer kb fb q = (qa_answer (kb ! i), qa_topic (kb ! i))"
      by (simp add: match_answer_def)
    with i mx fst show ?thesis by blast
  qed
qed

theorem match_answer_first_maximum_witness:
  "map (\<lambda>e. keyword_overlap e [122]) kb_example = [0, 0, 0]
   \<and> match_answer kb_example [70] [122] = ([70], [])
   \<and> map (\<lambda>e. keyword_overlap e [98, 99]) kb_example = [1, 2, 2]
   \<and> match_answer kb_example [70] [98, 99] = ([65, 50], [84, 50])"
proof -
  have o1: "map (\<lambda>e. keyword_overlap e [122]) kb_example = [0, 0, 0]"
    by (simp add: kb_example_def keyword_overlap_def)
  have o2: "map (\<lambda>e. keyword_overlap e [98, 99]) kb_example = [1, 2, 2]"
    by (simp add: kb_example_def keyword_overlap_def)
  have a: "\<forall>e \<in> set kb_example. keyword_overlap e [122] = 0" by (rule kb_example_overlap)
  from match_answer_first_maximum [of kb_example "[122]" "[70]"]
  have "(\<forall>e \<in> set kb_example. keyword_overlap e [122] = 0) \<longrightarrow>
      match_answer kb_example [70] [122] = ([70], [])"
    by (rule conjunct1)
  from this a have b: "match_answer kb_example [70] [122] = ([70], [])" by (rule mp)
  have "kb_example ! 1 \<in> set kb_example" by (simp add: kb_example_def)
  with kb_example_overlap(2) have c: "\<exists>e \<in> set kb_example. 0 < keyword_overlap e [98, 99]"
    by (intro bexI [of _ "kb_example ! 1"]) simp_all
  from match_answer_first_maximum [of kb_example "[98, 99]" "[70]"]
  have "(\<exists>e \<in> set kb_example. 0 < keyword_overlap e [98, 99]) \<longrightarrow>
        (\<exists>i < length kb_example.
           match_answer kb_example [70] [98, 99]
             = (qa_answer (kb_example ! i), qa_topic (kb_example ! i))
           \<and> (\<forall>j < length kb_example. keyword_overlap (kb_example ! j) [98, 99]
                \<le> keyword_overlap (kb_example ! i) [98, 99])
           \<and> (\<forall>j < i. keyword_overlap (kb_example ! j) [98, 99]
                < keyword_overlap (kb_example ! i) [98, 99]))"
    by (rule conjunct2)
  from this c
  have "\<exists>i < length kb_example.
           match_answer kb_example [70] [98, 99]
             = (qa_answer (kb_example ! i), qa_topic (kb_example ! i))
           \<and> (\<forall>j < length kb_example. keyword_overlap (kb_example ! j) [98, 99]
                \<le> keyword_overlap (kb_example ! i) [98, 99])
           \<and> (\<forall>j < i. keyword_overlap (kb_example ! j) [98, 99]
                < keyword_overlap (kb_example ! i) [98, 99])"
    by (rule mp)
  then obtain i where i: "i < length kb_example"
    and r: "match_answer kb_example [70] [98, 99] = (qa_answer (kb_example ! i), qa_topic (kb_example ! i))"
    and mx: "\<forall>j < length kb_example. keyword_overlap (kb_example ! j) [98, 99]
                \<le> keyword_overlap (kb_example ! i) [98, 99]"
    and fst: "\<forall>j < i. keyword_overlap (kb_example ! j) [98, 99]
                < keyword_overlap (kb_example ! i) [98, 99]"
    by (elim conjE exE) (rule that)
  from i have "i = 0 \<or> i = 1 \<or> i = 2" by (auto simp: kb_example_def)
  then have "i = 1"
  proof (elim disjE)
    assume "i = 0"
    with mx [rule_format, of 1] kb_example_overlap show ?thesis by (simp add: kb_example_def)
  next
    assume "i = 1" then show ?thesis .
  next
    assume "i = 2"
    with fst [rule_format, of 1] kb_example_overlap show ?thesis by simp
  qed
  with r have d: "match_answer kb_example [70] [98, 99] = ([65, 50], [84, 50])"
    by (simp add: kb_example_def)
  show ?thesis by (rule conjI o1 b o2 d)+
qed

end
